theory Spec2Isabelle
  imports Main "HOL-Library.Char_ord" "HOL-Library.List_Lexorder" "HOL-Library.Sublist"
begin

section \<open>The Korean handwriting triplet dataset\<close>

text \<open>
  A shallow embedding of \<^verbatim>\<open>app/datasets/korean_aihub_sentence_dataset.py\<close>, class
  \<^verbatim>\<open>KoreanTypographyDataset\<close>. Strings are byte lists holding the UTF-8 encoding of
  the Python text: substring tests and the code-point order of Python strings are the
  same on the encoded bytes. A path is the list of its parts (\<^verbatim>\<open>Path.parts\<close>); the
  conversions between \<^verbatim>\<open>str\<close> and \<^verbatim>\<open>Path\<close> are the identity on it.
\<close>

subsection \<open>Python values, errors and indexing\<close>

datatype error =
    IndexError
  | ValueError
  | OSError
  | SubfolderCountAssertion
  | WriterSegmentAssertion
  | ListLengthAssertion
  | LabelReadError

text \<open>
  \<open>IndexError\<close>: a list or array index out of range. \<open>ValueError\<close>: \<^verbatim>\<open>np.random.choice\<close> on
  an empty array, or a transpose whose axes do not fit. \<open>OSError\<close>: the pixel data of an
  opened image do not load. The three assertions are those of
  lines 74, 86 and 110 of the source. \<open>LabelReadError\<close>: anything raised by lines 90 to 92
  (the label file does not open, is not JSON, or has no \<^verbatim>\<open>["person"]["id"]\<close>).
\<close>

type_synonym path = "string list"

text \<open>\<^verbatim>\<open>xs[i]\<close> of Python: a negative index counts from the end, out of range raises.\<close>

definition py_index :: "'a list \<Rightarrow> int \<Rightarrow> error + 'a" where
  "py_index xs i =
     (if 0 \<le> i \<and> i < int (length xs) then Inr (xs ! nat i)
      else if i < 0 \<and> - i \<le> int (length xs) then Inr (xs ! nat (int (length xs) + i))
      else Inl IndexError)"

text \<open>\<^verbatim>\<open>needle in haystack\<close> on strings.\<close>

fun starts_with :: "string \<Rightarrow> string \<Rightarrow> bool" where
  "starts_with [] s = True"
| "starts_with (c # cs) [] = False"
| "starts_with (c # cs) (d # ds) = (c = d \<and> starts_with cs ds)"

fun str_contains :: "string \<Rightarrow> string \<Rightarrow> bool" where
  "str_contains needle [] = (needle = [])"
| "str_contains needle (c # cs) = (starts_with needle (c # cs) \<or> str_contains needle cs)"

text \<open>
  \<^verbatim>\<open>np.array\<close> on a list of strings gives an array of fixed width whose elements are
  padded with NUL characters; an element read back, or compared, has lost the NUL
  characters at its end. \<open>np_str\<close> is the string as such an array holds it.
\<close>

definition np_str :: "string \<Rightarrow> string" where
  "np_str s = rev (dropWhile (\<lambda>c. c = CHR 0x00) (rev s))"

definition np_array_str :: "string list \<Rightarrow> string list" where
  "np_array_str xs = map np_str xs"

text \<open>\<^verbatim>\<open>str(i)\<close> for a non-negative integer: its decimal digits.\<close>

definition digit_char :: "nat \<Rightarrow> char" where
  "digit_char d = ''0123456789'' ! d"

function py_str :: "nat \<Rightarrow> string" where
  "py_str n = (if n < 10 then [digit_char n] else py_str (n div 10) @ [digit_char (n mod 10)])"
  by pat_completeness auto
termination
  by (relation "measure (\<lambda>n. n)") auto

declare py_str.simps [simp del]

subsection \<open>The file system and decoded images\<close>

text \<open>
  An image array as \<^verbatim>\<open>np.array(image)\<close> gives it: height by width (a grey-scale or palette
  image) or height by width by channels.
\<close>

datatype 'v ndarray = Array2 "'v list list" | Array3 "'v list list list"

text \<open>
  The object that \<^verbatim>\<open>Image.open\<close> returns. It has read the header of the file only; the
  pixel data are loaded when \<^verbatim>\<open>np.array\<close> asks for them, which gives the array or
  raises \<open>OSError\<close> (a truncated file).
\<close>

datatype 'v pil_image = Decodable "'v ndarray" | Undecodable

definition np_array_image :: "'v pil_image \<Rightarrow> error + 'v ndarray" where
  "np_array_image img = (case img of Decodable arr \<Rightarrow> Inr arr | Undecodable \<Rightarrow> Inl OSError)"

text \<open>
  What the code reads from the disk. \<open>listdir d\<close> is the listing of directory \<open>d\<close> in the
  order \<^verbatim>\<open>Path.glob\<close> yields it (empty when \<open>d\<close> is no directory); \<open>person_id p\<close> is
  \<^verbatim>\<open>json.load(open(p))["person"]["id"]\<close>, \<open>None\<close> when any step of it raises;
  \<open>image_open p\<close> is the image object that \<^verbatim>\<open>Image.open(p)\<close> returns, \<open>None\<close> when it
  raises. The disk does not change while the dataset is built or read.
\<close>

record 'v filesystem =
  listdir :: "path \<Rightarrow> string list"
  person_id :: "path \<Rightarrow> string option"
  image_open :: "path \<Rightarrow> 'v pil_image option"

definition glob_all :: "'v filesystem \<Rightarrow> path \<Rightarrow> path list" where
  "glob_all fs d = map (\<lambda>name. d @ [name]) (listdir fs d)"

definition glob_0150 :: "'v filesystem \<Rightarrow> path \<Rightarrow> path list" where
  "glob_0150 fs d = map (\<lambda>name. d @ [name]) (filter (str_contains ''_0150_x'') (listdir fs d))"

definition parent :: "path \<Rightarrow> path" where
  "parent p = butlast p"

definition traced_marker :: string where
  "traced_marker = [CHR 0xEB, CHR 0xAA, CHR 0xA8, CHR 0xEC, CHR 0x82, CHR 0xAC]"

definition source_data_dir :: string where
  "source_data_dir = ''01.'' @ [CHR 0xEC, CHR 0x9B, CHR 0x90, CHR 0xEC, CHR 0xB2, CHR 0x9C,
     CHR 0xEB, CHR 0x8D, CHR 0xB0, CHR 0xEC, CHR 0x9D, CHR 0xB4, CHR 0xED, CHR 0x84, CHR 0xB0]"

definition labelling_data_dir :: string where
  "labelling_data_dir = ''02.'' @ [CHR 0xEB, CHR 0x9D, CHR 0xBC, CHR 0xEB, CHR 0xB2, CHR 0xA8,
     CHR 0xEB, CHR 0xA7, CHR 0x81,
     CHR 0xEB, CHR 0x8D, CHR 0xB0, CHR 0xEC, CHR 0x9D, CHR 0xB4, CHR 0xED, CHR 0x84, CHR 0xB0]"

subsection \<open>\<^verbatim>\<open>read_paths\<close>\<close>

text \<open>
  Lines 82 to 87: for every pair of an image and a label sub-subfolder, the first file
  matching \<^verbatim>\<open>*_0150_x*\<close> is selected, its writer segment (\<^verbatim>\<open>parts[-3]\<close>) is compared
  with that of the label path, and its path is appended.
\<close>

fun select_images ::
  "'v filesystem \<Rightarrow> path \<Rightarrow> (path \<times> path) list \<Rightarrow> path list \<Rightarrow> error + path list" where
  "select_images fs label_path [] image_path_list = Inr image_path_list"
| "select_images fs label_path ((img_pos, lab_pos) # rest) image_path_list =
     (case glob_0150 fs img_pos of
        [] \<Rightarrow> Inl IndexError
      | image_path # _ \<Rightarrow>
          (case py_index image_path (- 3) of
             Inl e \<Rightarrow> Inl e
           | Inr img_writer \<Rightarrow>
               (case py_index label_path (- 3) of
                  Inl e \<Rightarrow> Inl e
                | Inr lab_writer \<Rightarrow>
                    if img_writer = lab_writer
                    then select_images fs label_path rest (image_path_list @ [image_path])
                    else Inl WriterSegmentAssertion)))"

text \<open>
  Lines 72 to 95, the body of the inner loop for one writer-attempt that is not skipped.
  When the assertion of line 74 fails its message is formatted, and \<^verbatim>\<open>img_tf[0]\<close> or
  \<^verbatim>\<open>lab_tf[0]\<close> in it raises \<open>IndexError\<close> when that list is empty.
\<close>

definition read_attempt ::
  "'v filesystem \<Rightarrow> path \<Rightarrow> path \<Rightarrow> path list \<times> string list
     \<Rightarrow> error + (path list \<times> string list)" where
  "read_attempt fs img_tf_dir lab_tf_dir st =
     (case st of (image_path_list, label_list) \<Rightarrow>
        let img_tf = glob_all fs img_tf_dir;
            lab_tf = glob_all fs lab_tf_dir
        in if length img_tf \<noteq> length lab_tf
           then (if img_tf = [] \<or> lab_tf = [] then Inl IndexError
                 else Inl SubfolderCountAssertion)
           else
             let number_of_labels = length lab_tf
             in (case lab_tf of
                   [] \<Rightarrow> Inl IndexError
                 | lab0 # _ \<Rightarrow>
                     let label_path = lab0 @ [''labels(sent1).json'']
                     in (case select_images fs label_path (zip img_tf lab_tf) image_path_list of
                           Inl e \<Rightarrow> Inl e
                         | Inr image_path_list' \<Rightarrow>
                             (case person_id fs label_path of
                                None \<Rightarrow> Inl LabelReadError
                              | Some label \<Rightarrow>
                                  Inr (image_path_list',
                                       label_list @ replicate number_of_labels label)))))"

text \<open>
  The test of lines 98 to 102 and of lines 103 to 107: with \<^verbatim>\<open>is_sanity_check\<close> being
  \<^verbatim>\<open>True\<close>, leave the loop at index 3 when training and at index 1 otherwise.
\<close>

definition sanity_break :: "bool option \<Rightarrow> bool \<Rightarrow> nat \<Rightarrow> bool" where
  "sanity_break is_sanity_check is_train i =
     (is_sanity_check = Some True \<and> ((is_train \<and> i = 3) \<or> (\<not> is_train \<and> i = 1)))"

definition is_traced :: "path \<Rightarrow> bool" where
  "is_traced img_tf = str_contains traced_marker (last img_tf)"

text \<open>
  Lines 65 to 102: the loop over the writer-attempts of one sentence group, from index
  \<open>i_tf\<close> on. A traced folder is skipped by \<^verbatim>\<open>continue\<close>, which also skips the test
  for leaving the loop.
\<close>

fun loop_tf ::
  "'v filesystem \<Rightarrow> bool \<Rightarrow> bool option \<Rightarrow> nat \<Rightarrow> (path \<times> path) list
     \<Rightarrow> path list \<times> string list \<Rightarrow> error + (path list \<times> string list)" where
  "loop_tf fs is_train is_sanity_check i_tf [] st = Inr st"
| "loop_tf fs is_train is_sanity_check i_tf ((img_tf, lab_tf) # rest) st =
     (if is_traced img_tf
      then loop_tf fs is_train is_sanity_check (Suc i_tf) rest st
      else (case read_attempt fs img_tf lab_tf st of
              Inl e \<Rightarrow> Inl e
            | Inr st' \<Rightarrow>
                if sanity_break is_sanity_check is_train i_tf then Inr st'
                else loop_tf fs is_train is_sanity_check (Suc i_tf) rest st'))"

text \<open>Lines 64 to 107: the loop over the sentence groups, from index \<open>i_sen\<close> on.\<close>

fun loop_sen ::
  "'v filesystem \<Rightarrow> bool \<Rightarrow> bool option \<Rightarrow> nat \<Rightarrow> (path \<times> path) list
     \<Rightarrow> path list \<times> string list \<Rightarrow> error + (path list \<times> string list)" where
  "loop_sen fs is_train is_sanity_check i_sen [] st = Inr st"
| "loop_sen fs is_train is_sanity_check i_sen ((img_sen, lab_sen) # rest) st =
     (case loop_tf fs is_train is_sanity_check 0
             (zip (glob_all fs img_sen) (glob_all fs lab_sen)) st of
        Inl e \<Rightarrow> Inl e
      | Inr st' \<Rightarrow>
          if sanity_break is_sanity_check is_train i_sen then Inr st'
          else loop_sen fs is_train is_sanity_check (Suc i_sen) rest st')"

definition read_paths ::
  "'v filesystem \<Rightarrow> path \<Rightarrow> bool \<Rightarrow> bool option \<Rightarrow> error + (path list \<times> string list)" where
  "read_paths fs root_dir is_train is_sanity_check =
     (let p = root_dir @ [if is_train then ''Training'' else ''Validation''];
          image_p = p @ [source_data_dir, (if is_train then ''T'' else ''V'') @ ''S_images''];
          label_p = p @ [labelling_data_dir, (if is_train then ''T'' else ''V'') @ ''L_labels'']
      in (case loop_sen fs is_train is_sanity_check 0
                 (zip (glob_all fs image_p) (glob_all fs label_p)) ([], []) of
            Inl e \<Rightarrow> Inl e
          | Inr (image_path_list, label_list) \<Rightarrow>
              if length image_path_list = length label_list
              then Inr (image_path_list, label_list)
              else Inl ListLengthAssertion))"

subsection \<open>\<^verbatim>\<open>label_to_integer\<close>\<close>

text \<open>
  \<^verbatim>\<open>np.unique\<close> on a list of strings: the sorted distinct elements of the array made of
  the list.
\<close>

definition np_unique :: "string list \<Rightarrow> string list" where
  "np_unique ar = remdups_adj (sort (np_array_str ar))"

definition label_to_integer :: "string list \<Rightarrow> (string \<rightharpoonup> string)" where
  "label_to_integer label_list =
     fold (\<lambda>(i, val) return_dict. return_dict(val \<mapsto> py_str i))
          (enumerate 0 (np_unique label_list)) Map.empty"

subsection \<open>The dataset object\<close>

record 'v dataset =
  root_dir :: path
  transform :: "('v ndarray \<Rightarrow> 'v ndarray) option"
  is_train :: bool
  is_sanity_check :: "bool option"
  image_path_list :: "path list"
  label_list :: "string list"
  label2int_map :: "string \<rightharpoonup> string"

text \<open>\<^verbatim>\<open>__init__\<close>: the construction fails when \<^verbatim>\<open>read_paths\<close> raises.\<close>

definition init ::
  "'v filesystem \<Rightarrow> path \<Rightarrow> ('v ndarray \<Rightarrow> 'v ndarray) option \<Rightarrow> bool \<Rightarrow> bool option
     \<Rightarrow> error + 'v dataset" where
  "init fs root transf train sanity =
     (case read_paths fs root train sanity of
        Inl e \<Rightarrow> Inl e
      | Inr (paths, labels) \<Rightarrow>
          Inr \<lparr> root_dir = root, transform = transf, is_train = train,
                is_sanity_check = sanity, image_path_list = paths, label_list = labels,
                label2int_map = label_to_integer labels \<rparr>)"

definition len :: "'v dataset \<Rightarrow> nat" where
  "len self = length (label_list self)"

subsection \<open>\<^verbatim>\<open>read_image\<close>\<close>

text \<open>
  Lines 132 to 144. Each failed \<^verbatim>\<open>Image.open\<close> lowers \<open>io_idx\<close> by one, lists the
  folder of the path that failed and goes on with \<^verbatim>\<open>files[io_idx]\<close>; that index
  expression stands in the handler, so its \<open>IndexError\<close> leaves the function. The loop
  ends with the first image object that \<^verbatim>\<open>Image.open\<close> returns.
\<close>

function read_image_loop :: "'v filesystem \<Rightarrow> path \<Rightarrow> int \<Rightarrow> error + 'v pil_image" where
  "read_image_loop fs image_path io_idx =
     (case image_open fs image_path of
        Some img \<Rightarrow> Inr img
      | None \<Rightarrow>
          (case py_index (glob_all fs (parent image_path)) (io_idx - 1) of
             Inl e \<Rightarrow> Inl e
           | Inr image_path' \<Rightarrow> read_image_loop fs image_path' (io_idx - 1)))"
  by pat_completeness auto
termination
proof (relation "measure (\<lambda>(fs, image_path, io_idx).
         nat (io_idx + int (length (listdir fs (parent image_path))) + 1))")
  show "wf (measure (\<lambda>(fs :: 'v filesystem, image_path, io_idx).
         nat (io_idx + int (length (listdir fs (parent image_path))) + 1)))"
    by simp
next
  fix fs :: "'v filesystem" and image_path :: path and io_idx :: int and image_path' :: path
  assume "py_index (glob_all fs (parent image_path)) (io_idx - 1) = Inr image_path'"
  then have "image_path' \<in> set (glob_all fs (parent image_path))
      \<and> - int (length (listdir fs (parent image_path))) \<le> io_idx - 1"
    by (auto simp: py_index_def glob_all_def split: if_splits)
  then have "parent image_path' = parent image_path
      \<and> - int (length (listdir fs (parent image_path))) \<le> io_idx - 1"
    by (auto simp: glob_all_def parent_def)
  then show "((fs, image_path', io_idx - 1), (fs, image_path, io_idx))
      \<in> measure (\<lambda>(fs, image_path, io_idx).
           nat (io_idx + int (length (listdir fs (parent image_path))) + 1))"
    by simp
qed

declare read_image_loop.simps [simp del]

text \<open>\<^verbatim>\<open>arr[:, :, :3]\<close>: an array of two axes has no third one to slice.\<close>

definition slice_rgb :: "'v ndarray \<Rightarrow> error + 'v ndarray" where
  "slice_rgb arr =
     (case arr of
        Array2 rows \<Rightarrow> Inl IndexError
      | Array3 rows \<Rightarrow> Inr (Array3 (map (map (take 3)) rows)))"

text \<open>
  \<^verbatim>\<open>read_image\<close> takes the dataset and gives it back with its result, so that what it
  does to the object can be stated. Line 146 is outside the \<^verbatim>\<open>try\<close>: an image that
  opened and does not load raises there, and no other file is tried.
\<close>

definition read_image ::
  "'v dataset \<Rightarrow> 'v filesystem \<Rightarrow> int \<Rightarrow> (error + 'v ndarray) \<times> 'v dataset" where
  "read_image self fs idx =
     (case py_index (image_path_list self) idx of
        Inl e \<Rightarrow> (Inl e, self)
      | Inr image_path \<Rightarrow>
          (case read_image_loop fs image_path (- 1) of
             Inl e \<Rightarrow> (Inl e, self)
           | Inr img \<Rightarrow>
               (case np_array_image img of
                  Inl e \<Rightarrow> (Inl e, self)
                | Inr arr \<Rightarrow> (slice_rgb arr, self))))"

subsection \<open>\<^verbatim>\<open>__getitem__\<close>\<close>

text \<open>
  \<^verbatim>\<open>np.where(cond)[0]\<close>: the positions at which the condition holds. \<^verbatim>\<open>np.delete(arr, obj)\<close>:
  the array without the positions in \<open>obj\<close>. \<^verbatim>\<open>np.random.choice(a)\<close>: an element of a
  non-empty array, here the one at the position that the random source \<open>r\<close> gives.
\<close>

definition np_where :: "bool list \<Rightarrow> nat list" where
  "np_where cond = filter (\<lambda>i. cond ! i) [0..<length cond]"

definition np_delete :: "'a list \<Rightarrow> nat list \<Rightarrow> 'a list" where
  "np_delete arr obj = map (\<lambda>i. arr ! i) (filter (\<lambda>i. i \<notin> set obj) [0..<length arr])"

definition random_choice :: "'a list \<Rightarrow> nat \<Rightarrow> error + 'a" where
  "random_choice a r = (if a = [] then Inl ValueError else Inr (a ! (r mod length a)))"

text \<open>
  Lines 26 to 33: the anchor's label and the draw of the two other indices. The labels
  are compared inside the numpy array of line 27, so up to NUL characters at their end.
  Line 29 removes the entry equal to \<open>idx\<close>; for a negative \<open>idx\<close>, which line 26 accepts
  as the position \<open>idx\<close> plus the length, no entry is equal to it.
\<close>

definition sample_indices :: "string list \<Rightarrow> int \<Rightarrow> nat \<Rightarrow> nat \<Rightarrow> error + (nat \<times> nat)" where
  "sample_indices labels idx r1 r2 =
     (case py_index labels idx of
        Inl e \<Rightarrow> Inl e
      | Inr anchor_label \<Rightarrow>
          let label_arr = np_array_str labels;
              pos_indices = np_where (map (\<lambda>l. l = np_str anchor_label) label_arr);
              pos_indices = np_delete pos_indices (np_where (map (\<lambda>j. int j = idx) pos_indices));
              neg_indices = np_where (map (\<lambda>l. l \<noteq> np_str anchor_label) label_arr)
          in (case random_choice pos_indices r1 of
                Inl e \<Rightarrow> Inl e
              | Inr pos_idx \<Rightarrow>
                  (case random_choice neg_indices r2 of
                     Inl e \<Rightarrow> Inl e
                   | Inr neg_idx \<Rightarrow> Inr (pos_idx, neg_idx))))"

text \<open>
  \<^verbatim>\<open>convert_to_tensor\<close>: the axes (height, width, channel) become (channel, height,
  width); the change of the element type to \<^verbatim>\<open>float32\<close> is left out.
\<close>

definition convert_to_tensor :: "'v ndarray \<Rightarrow> error + 'v ndarray" where
  "convert_to_tensor img =
     (case img of
        Array2 rows \<Rightarrow> Inl ValueError
      | Array3 rows \<Rightarrow>
          let channels = (case concat rows of [] \<Rightarrow> 0 | px # _ \<Rightarrow> length px)
          in Inr (Array3 (map (\<lambda>c. map (map (\<lambda>px. px ! c)) rows) [0..<channels])))"

definition apply_transform :: "('v ndarray \<Rightarrow> 'v ndarray) option \<Rightarrow> 'v ndarray \<Rightarrow> 'v ndarray" where
  "apply_transform transf img = (case transf of None \<Rightarrow> img | Some f \<Rightarrow> f img)"

text \<open>
  Lines 25 to 51. The two random draws are the arguments \<open>r1\<close> and \<open>r2\<close>; the dataset is
  passed through every step and returned with the result.
\<close>

definition getitem ::
  "'v dataset \<Rightarrow> 'v filesystem \<Rightarrow> int \<Rightarrow> nat \<Rightarrow> nat
     \<Rightarrow> (error + ('v ndarray \<times> 'v ndarray \<times> 'v ndarray)) \<times> 'v dataset" where
  "getitem self fs idx r1 r2 =
     (case sample_indices (label_list self) idx r1 r2 of
        Inl e \<Rightarrow> (Inl e, self)
      | Inr (pos_idx, neg_idx) \<Rightarrow>
          (case read_image self fs idx of
             (Inl e, self1) \<Rightarrow> (Inl e, self1)
           | (Inr anchor_img, self1) \<Rightarrow>
               (case read_image self1 fs (int pos_idx) of
                  (Inl e, self2) \<Rightarrow> (Inl e, self2)
                | (Inr pos_img, self2) \<Rightarrow>
                    (case read_image self2 fs (int neg_idx) of
                       (Inl e, self3) \<Rightarrow> (Inl e, self3)
                     | (Inr neg_img, self3) \<Rightarrow>
                         (case convert_to_tensor (apply_transform (transform self3) anchor_img) of
                            Inl e \<Rightarrow> (Inl e, self3)
                          | Inr anchor_tensor \<Rightarrow>
                              (case convert_to_tensor (apply_transform (transform self3) pos_img) of
                                 Inl e \<Rightarrow> (Inl e, self3)
                               | Inr pos_tensor \<Rightarrow>
                                   (case convert_to_tensor
                                           (apply_transform (transform self3) neg_img) of
                                      Inl e \<Rightarrow> (Inl e, self3)
                                    | Inr neg_tensor \<Rightarrow>
                                        (Inr (anchor_tensor, pos_tensor, neg_tensor),
                                         self3))))))))"

subsection \<open>Candidate lists and a small corpus\<close>

text \<open>
  The positive and the negative candidates of lines 28 to 30, written as list
  comprehensions over the positions of the label list.
\<close>

definition pos_candidates :: "string list \<Rightarrow> string \<Rightarrow> int \<Rightarrow> nat list" where
  "pos_candidates labels a idx =
     filter (\<lambda>j. int j \<noteq> idx)
       (filter (\<lambda>j. np_str (labels ! j) = np_str a) [0..<length labels])"

definition neg_candidates :: "string list \<Rightarrow> string \<Rightarrow> nat list" where
  "neg_candidates labels a =
     filter (\<lambda>j. np_str (labels ! j) \<noteq> np_str a) [0..<length labels]"

text \<open>A dataset object with three samples of two writers, used to run the functions.\<close>

definition three_samples :: "nat dataset" where
  "three_samples =
     \<lparr> root_dir = [''data''], transform = None, is_train = True, is_sanity_check = None,
       image_path_list = [[''d'', ''a_0150_x1.png''], [''d'', ''b_0150_x1.png''],
                          [''d'', ''c_0150_x1.png'']],
       label_list = [''w1'', ''w2'', ''w1''],
       label2int_map = label_to_integer [''w1'', ''w2'', ''w1''] \<rparr>"

text \<open>The same with a writer-id that ends with a NUL character.\<close>

definition nul_samples :: "nat dataset" where
  "nul_samples =
     \<lparr> root_dir = [''data''], transform = None, is_train = True, is_sanity_check = None,
       image_path_list = [[''d'', ''a_0150_x1.png''], [''d'', ''b_0150_x1.png''],
                          [''d'', ''c_0150_x1.png'']],
       label_list = [''w1'' @ [CHR 0x00], ''w1'', ''w2''],
       label2int_map = label_to_integer [''w1'' @ [CHR 0x00], ''w1'', ''w2''] \<rparr>"

definition one_pixel_fs :: "nat filesystem" where
  "one_pixel_fs =
     \<lparr> listdir = (\<lambda>p. if p = [''d'']
                        then [''a_0150_x1.png'', ''b_0150_x1.png'', ''c_0150_x1.png''] else []),
       person_id = (\<lambda>p. None),
       image_open = (\<lambda>p. Some (Decodable (Array3 [[[10, 20, 30, 255]]]))) \<rparr>"

subsection \<open>The order in which \<^verbatim>\<open>read_image\<close> probes a folder\<close>

text \<open>
  \<open>first_opening fs ps\<close> is the image object of the first path of \<open>ps\<close> that opens, and
  the \<open>IndexError\<close> of the exhausted listing when none does. \<open>probe_order\<close> is the order
  that the indices -2, -3, ... give: the listing without its last entry, backwards.
\<close>

definition first_opening :: "'v filesystem \<Rightarrow> path list \<Rightarrow> error + 'v pil_image" where
  "first_opening fs ps =
     (case find (\<lambda>p. image_open fs p \<noteq> None) ps of
        None \<Rightarrow> Inl IndexError
      | Some p \<Rightarrow> (case image_open fs p of None \<Rightarrow> Inl IndexError | Some img \<Rightarrow> Inr img))"

definition probe_order :: "path list \<Rightarrow> path list" where
  "probe_order files = rev (butlast files)"

text \<open>
  A file decodes when it opens and its pixel data load. \<open>first_decoded fs ps\<close> is the
  array of the first path of \<open>ps\<close> that decodes. \<open>opened_files_load fs ps\<close>: no file of
  \<open>ps\<close> opens without loading.
\<close>

definition decoded :: "'v filesystem \<Rightarrow> path \<Rightarrow> 'v ndarray option" where
  "decoded fs p =
     (case image_open fs p of
        None \<Rightarrow> None
      | Some img \<Rightarrow> (case img of Decodable arr \<Rightarrow> Some arr | Undecodable \<Rightarrow> None))"

definition first_decoded :: "'v filesystem \<Rightarrow> path list \<Rightarrow> error + 'v ndarray" where
  "first_decoded fs ps =
     (case find (\<lambda>p. decoded fs p \<noteq> None) ps of
        None \<Rightarrow> Inl IndexError
      | Some p \<Rightarrow> (case decoded fs p of None \<Rightarrow> Inl IndexError | Some arr \<Rightarrow> Inr arr))"

definition opened_files_load :: "'v filesystem \<Rightarrow> path list \<Rightarrow> bool" where
  "opened_files_load fs ps = list_all (\<lambda>p. image_open fs p \<noteq> Some Undecodable) ps"

text \<open>
  The reader as the specification words it: when the file at the recorded path does not
  decode, the files before that path in the listing of its folder are tried, the nearest
  first, until one decodes.
\<close>

definition spec_probe_order :: "path list \<Rightarrow> path \<Rightarrow> path list" where
  "spec_probe_order files image_path = rev (takeWhile (\<lambda>p. p \<noteq> image_path) files)"

definition spec_read_image :: "'v filesystem \<Rightarrow> path \<Rightarrow> error + 'v ndarray" where
  "spec_read_image fs image_path =
     (case first_decoded fs
             (image_path # spec_probe_order (glob_all fs (parent image_path)) image_path) of
        Inl e \<Rightarrow> Inl e
      | Inr arr \<Rightarrow> slice_rgb arr)"

text \<open>
  A folder \<open>d\<close> with the frames 148, 149 and 150 of one sample, listed as \<open>names\<close>. The
  frames 148 and 149 decode; \<open>frame150\<close> is what \<^verbatim>\<open>Image.open\<close> gives for frame 150, the
  recorded file of the one sample of \<open>frame_dataset\<close>.
\<close>

definition frame_folder :: "string list \<Rightarrow> nat pil_image option \<Rightarrow> nat filesystem" where
  "frame_folder names frame150 =
     \<lparr> listdir = (\<lambda>p. if p = [''d''] then names else []),
       person_id = (\<lambda>p. None),
       image_open =
         (\<lambda>p. if p = [''d'', ''f_0148_x1.png''] then Some (Decodable (Array3 [[[1, 2, 3, 255]]]))
               else if p = [''d'', ''f_0149_x1.png'']
                 then Some (Decodable (Array3 [[[4, 5, 6, 255]]]))
               else if p = [''d'', ''f_0150_x1.png''] then frame150
               else None) \<rparr>"

definition listed_first :: "string list" where
  "listed_first = [''f_0150_x1.png'', ''f_0148_x1.png'', ''f_0149_x1.png'']"

definition listed_last :: "string list" where
  "listed_last = [''f_0148_x1.png'', ''f_0149_x1.png'', ''f_0150_x1.png'']"

definition frame_dataset :: "nat dataset" where
  "frame_dataset =
     \<lparr> root_dir = [''data''], transform = None, is_train = True, is_sanity_check = None,
       image_path_list = [[''d'', ''f_0150_x1.png'']],
       label_list = [''w1''],
       label2int_map = label_to_integer [''w1''] \<rparr>"

subsection \<open>The writer-attempts that \<^verbatim>\<open>read_paths\<close> processes\<close>

text \<open>
  Which pairs of writer-attempt folders the two loops hand to the loop body depends on
  the listings, the traced marker and the sanity-check cut only, not on what the body
  does. \<open>visited_tf\<close> and \<open>visited_sen\<close> follow the control flow of \<open>loop_tf\<close> and
  \<open>loop_sen\<close> and collect these pairs in order; \<open>run_attempts\<close> runs the loop body over
  such a list and stops at the first error.
\<close>

fun visited_tf :: "bool \<Rightarrow> bool option \<Rightarrow> nat \<Rightarrow> (path \<times> path) list \<Rightarrow> (path \<times> path) list" where
  "visited_tf train sanity i_tf [] = []"
| "visited_tf train sanity i_tf ((img_tf, lab_tf) # rest) =
     (if is_traced img_tf
      then visited_tf train sanity (Suc i_tf) rest
      else (img_tf, lab_tf) #
           (if sanity_break sanity train i_tf then []
            else visited_tf train sanity (Suc i_tf) rest))"

fun visited_sen ::
  "'v filesystem \<Rightarrow> bool \<Rightarrow> bool option \<Rightarrow> nat \<Rightarrow> (path \<times> path) list
     \<Rightarrow> (path \<times> path) list" where
  "visited_sen fs train sanity i_sen [] = []"
| "visited_sen fs train sanity i_sen ((img_sen, lab_sen) # rest) =
     visited_tf train sanity 0 (zip (glob_all fs img_sen) (glob_all fs lab_sen)) @
     (if sanity_break sanity train i_sen then []
      else visited_sen fs train sanity (Suc i_sen) rest)"

definition image_root :: "path \<Rightarrow> bool \<Rightarrow> path" where
  "image_root root train =
     root @ [if train then ''Training'' else ''Validation'',
             source_data_dir, (if train then ''T'' else ''V'') @ ''S_images'']"

definition label_root :: "path \<Rightarrow> bool \<Rightarrow> path" where
  "label_root root train =
     root @ [if train then ''Training'' else ''Validation'',
             labelling_data_dir, (if train then ''T'' else ''V'') @ ''L_labels'']"

definition visited_attempts ::
  "'v filesystem \<Rightarrow> path \<Rightarrow> bool \<Rightarrow> bool option \<Rightarrow> (path \<times> path) list" where
  "visited_attempts fs root train sanity =
     visited_sen fs train sanity 0
       (zip (glob_all fs (image_root root train)) (glob_all fs (label_root root train)))"

fun run_attempts ::
  "'v filesystem \<Rightarrow> (path \<times> path) list \<Rightarrow> path list \<times> string list
     \<Rightarrow> error + (path list \<times> string list)" where
  "run_attempts fs [] st = Inr st"
| "run_attempts fs ((img_tf, lab_tf) # rest) st =
     (case read_attempt fs img_tf lab_tf st of
        Inl e \<Rightarrow> Inl e
      | Inr st' \<Rightarrow> run_attempts fs rest st')"

text \<open>
  The file that line 83 selects in an image sub-subfolder, and the label path of line 79,
  when they exist.
\<close>

definition selected_image :: "'v filesystem \<Rightarrow> path \<Rightarrow> path option" where
  "selected_image fs img_pos = (case glob_0150 fs img_pos of [] \<Rightarrow> None | p # _ \<Rightarrow> Some p)"

definition label_path_of :: "'v filesystem \<Rightarrow> path \<Rightarrow> path option" where
  "label_path_of fs lab_tf =
     (case glob_all fs lab_tf of [] \<Rightarrow> None | lab0 # _ \<Rightarrow> Some (lab0 @ [''labels(sent1).json'']))"

text \<open>The image sub-subfolders of the processed writer-attempts.\<close>

definition visited_subfolders ::
  "'v filesystem \<Rightarrow> path \<Rightarrow> bool \<Rightarrow> bool option \<Rightarrow> path list" where
  "visited_subfolders fs root train sanity =
     concat (map (\<lambda>(img_tf, lab_tf). glob_all fs img_tf)
                 (visited_attempts fs root train sanity))"

text \<open>
  \<open>entry_of_attempt fs img_tf lab_tf p l\<close>: the path \<open>p\<close> is the file selected in a
  sub-subfolder of the image folder \<open>img_tf\<close>, and \<open>l\<close> is the writer-id read from the
  label file of the label folder \<open>lab_tf\<close>.
\<close>

definition entry_of_attempt :: "'v filesystem \<Rightarrow> path \<Rightarrow> path \<Rightarrow> path \<Rightarrow> string \<Rightarrow> bool" where
  "entry_of_attempt fs img_tf lab_tf p l =
     ((\<exists>d \<in> set (glob_all fs img_tf). selected_image fs d = Some p)
      \<and> (case label_path_of fs lab_tf of
            None \<Rightarrow> False
          | Some label_path \<Rightarrow> person_id fs label_path = Some l))"




definition attempt_succeeds :: "'v filesystem \<Rightarrow> path \<times> path \<Rightarrow> bool" where
  "attempt_succeeds fs pr =
     (case read_attempt fs (fst pr) (snd pr) ([], []) of Inl e \<Rightarrow> False | Inr st \<Rightarrow> True)"










text \<open>
  Construction gets as far as the selection step of the image sub-subfolder \<open>d\<close>: every
  writer-attempt processed before is processed without error, the count assertion of the
  writer-attempt of \<open>d\<close> holds, and in every sub-subfolder of it before \<open>d\<close> a file is
  selected whose writer segment is that of the label path.
\<close>

definition selection_passes :: "'v filesystem \<Rightarrow> path \<Rightarrow> path \<Rightarrow> bool" where
  "selection_passes fs lab_tf img_pos =
     (case selected_image fs img_pos of
        None \<Rightarrow> False
      | Some p \<Rightarrow>
          (case label_path_of fs lab_tf of
             None \<Rightarrow> False
           | Some label_path \<Rightarrow>
               (case py_index p (- 3) of
                  Inl e \<Rightarrow> False
                | Inr img_writer \<Rightarrow> py_index label_path (- 3) = Inr img_writer)))"

definition reaches_in_attempt :: "'v filesystem \<Rightarrow> path \<Rightarrow> path \<Rightarrow> path \<Rightarrow> bool" where
  "reaches_in_attempt fs img_tf lab_tf d =
     (length (glob_all fs img_tf) = length (glob_all fs lab_tf)
      \<and> list_ex (\<lambda>k. glob_all fs img_tf ! k = d
                      \<and> list_all (selection_passes fs lab_tf) (take k (glob_all fs img_tf)))
           [0..<length (glob_all fs img_tf)])"

fun reaches :: "'v filesystem \<Rightarrow> (path \<times> path) list \<Rightarrow> path \<Rightarrow> bool" where
  "reaches fs [] d = False"
| "reaches fs ((img_tf, lab_tf) # rest) d =
     (reaches_in_attempt fs img_tf lab_tf d
      \<or> (attempt_succeeds fs (img_tf, lab_tf) \<and> reaches fs rest d))"

subsection \<open>Example corpora\<close>

text \<open>
  A corpus is given by its listing function; the label of a writer-attempt is its folder
  name after \<open>id_\<close>, and every image opens. \<open>corpus_listing\<close> is a root with 2 sentence
  groups of 2 writer-attempts of 3 variant sub-subfolders each, none traced, each
  sub-subfolder holding the canonical file.
\<close>

definition layout_fs :: "(path \<Rightarrow> string list) \<Rightarrow> nat filesystem" where
  "layout_fs listing =
     \<lparr> listdir = listing,
       person_id = (\<lambda>p. if length p = 8 \<and> last p = ''labels(sent1).json''
                         then Some (''id_'' @ p ! 5) else None),
       image_open = (\<lambda>p. Some (Decodable (Array3 [[[10, 20, 30, 255]]]))) \<rparr>"


text \<open>
  One sentence group with the writer-attempt \<open>w1\<close> and a traced one whose image folder
  has two sub-subfolders and whose label folder has one.
\<close>

definition traced_listing :: "path \<Rightarrow> string list" where
  "traced_listing p =
     (if length p = 4 then [''s1'']
      else if length p = 5 then [''w1'', ''w2_'' @ traced_marker]
      else if length p = 6 then
        (if is_traced p \<and> p ! 3 = ''TS_images'' then [''v1'', ''v2''] else [''v1''])
      else if length p = 7 then [''a_0150_x1.png'']
      else [])"

text \<open>The same with the marker removed: the mismatch is in a processed writer-attempt.\<close>

definition mismatch_listing :: "path \<Rightarrow> string list" where
  "mismatch_listing p =
     (if length p = 4 then [''s1'']
      else if length p = 5 then [''w1'', ''w2'']
      else if length p = 6 then
        (if last p = ''w2'' \<and> p ! 3 = ''TS_images'' then [''v1'', ''v2''] else [''v1''])
      else if length p = 7 then [''a_0150_x1.png'']
      else [])"

text \<open>The sub-subfolder \<open>v2\<close> of every writer-attempt lacks the canonical file.\<close>

definition no_canonical_listing :: "path \<Rightarrow> string list" where
  "no_canonical_listing p =
     (if length p = 4 then [''s1'']
      else if length p = 5 then [''w1'']
      else if length p = 6 then [''v1'', ''v2'']
      else if length p = 7 then
        (if last p = ''v2'' then [''a_0149_x1.png''] else [''a_0150_x1.png''])
      else [])"


text \<open>
  The writer-attempt \<open>w1\<close> has two image sub-subfolders and one label sub-subfolder; the
  sub-subfolder of \<open>w2\<close>, processed after it, lacks the canonical file.
\<close>

definition mismatch_first_listing :: "path \<Rightarrow> string list" where
  "mismatch_first_listing p =
     (if length p = 4 then [''s1'']
      else if length p = 5 then [''w1'', ''w2'']
      else if length p = 6 then
        (if last p = ''w1'' \<and> p ! 3 = ''TS_images'' then [''v1'', ''v2''] else [''v1''])
      else if length p = 7 then
        (if p ! 5 = ''w2'' then [''a_0149_x1.png''] else [''a_0150_x1.png''])
      else [])"

section \<open>Properties\<close>

subsection \<open>\<^verbatim>\<open>label_to_integer\<close>\<close>

lemma np_str_idem: "np_str (np_str s) = np_str s"
proof -
  have "dropWhile (\<lambda>c. c = CHR 0x00) (dropWhile (\<lambda>c. c = CHR 0x00) (rev s))
      = dropWhile (\<lambda>c. c = CHR 0x00) (rev s)"
    by (rule dropWhile_idem)
  then show ?thesis by (simp add: np_str_def)
qed

lemma np_str_no_trailing_nul:
  "s = [] \<or> last s \<noteq> CHR 0x00 \<Longrightarrow> np_str s = s"
  by (cases s rule: rev_cases) (auto simp: np_str_def)

lemma np_array_str_no_trailing_nul:
  "\<forall>l \<in> set ls. l = [] \<or> last l \<noteq> CHR 0x00 \<Longrightarrow> np_array_str ls = ls"
  unfolding np_array_str_def by (rule map_idI) (simp add: np_str_no_trailing_nul)

lemma distinct_remdups_adj_sorted:
  "sorted xs \<Longrightarrow> distinct (remdups_adj xs)"
  by (induction xs rule: remdups_adj.induct) auto

lemma np_unique_eq: "np_unique xs = sorted_list_of_set (np_str ` set xs)"
  unfolding np_unique_def
  by (rule sorted_distinct_set_unique)
     (simp_all add: distinct_remdups_adj_sorted np_array_str_def)

lemma upd_map_add: "m0(k \<mapsto> v) ++ m = m0 ++ ([k \<mapsto> v] ++ m)"
  by (rule ext) (simp add: map_add_def split: option.splits)

lemma fold_update_map_of:
  "fold (\<lambda>(i, val) m. m(val \<mapsto> f i)) ps m0
     = m0 ++ map_of (rev (map (\<lambda>(i, val). (val, f i)) ps))"
proof (induction ps arbitrary: m0)
  case Nil
  then show ?case by simp
next
  case (Cons p ps)
  obtain i val where p: "p = (i, val)" by (cases p)
  have "fold (\<lambda>(i, val) m. m(val \<mapsto> f i)) (p # ps) m0
      = fold (\<lambda>(i, val) m. m(val \<mapsto> f i)) ps (m0(val \<mapsto> f i))"
    unfolding p by simp
  also have "\<dots> = m0(val \<mapsto> f i) ++ map_of (rev (map (\<lambda>(i, val). (val, f i)) ps))"
    by (rule Cons.IH)
  also have "\<dots> = m0 ++ map_of (rev (map (\<lambda>(i, val). (val, f i)) (p # ps)))"
    unfolding p by (simp add: map_of_append)
  finally show ?case .
qed

lemma map_of_rev_distinct:
  "distinct (map fst ps) \<Longrightarrow> map_of (rev ps) = map_of ps"
proof (induction ps)
  case Nil
  then show ?case by simp
next
  case (Cons p ps)
  obtain k v where p: "p = (k, v)" by (cases p)
  have notin: "map_of ps k = None"
    using Cons.prems by (simp add: p map_of_eq_None_iff)
  have "map_of (rev (p # ps)) = [k \<mapsto> v] ++ map_of ps"
    using Cons by (simp add: p map_of_append)
  also have "\<dots> = map_of (p # ps)"
    using notin by (auto simp: p map_add_def fun_eq_iff split: option.splits)
  finally show ?case .
qed

lemma label_to_integer_zip:
  "label_to_integer ls = map_of (zip (np_unique ls) (map py_str [0..<length (np_unique ls)]))"
proof -
  let ?u = "np_unique ls"
  have d: "distinct ?u" by (simp add: np_unique_eq)
  have e: "map (\<lambda>(i, val). (val, py_str i)) (enumerate 0 ?u) = zip ?u (map py_str [0..<length ?u])"
    by (rule nth_equalityI) (simp_all add: nth_enumerate_eq)
  have "distinct (map fst (zip ?u (map py_str [0..<length ?u])))"
    using d by simp
  then have "map_of (rev (zip ?u (map py_str [0..<length ?u])))
      = map_of (zip ?u (map py_str [0..<length ?u]))"
    by (rule map_of_rev_distinct)
  then show ?thesis
    unfolding label_to_integer_def fold_update_map_of e by simp
qed

text \<open>
  Claim C7, as the code has it. For every list of writer-ids, the keys of the map that
  \<^verbatim>\<open>label_to_integer\<close> returns are exactly the writer-ids of the list as the numpy array
  holds them, that is without the NUL characters at their end; the k-th of these keys in
  sorted order (from 0) is mapped to the decimal string of k, so that the values are the
  strings of 0 up to the number of keys less one; the empty list gives the empty map; the
  result is a function of the list alone. When no writer-id of the list ends with a NUL
  character, the keys are exactly the writer-ids, and the k-th writer-id in sorted order
  is mapped to the decimal string of k.
\<close>

theorem label_to_integer_spec:
  "dom (label_to_integer ls) = np_str ` set ls
   \<and> (\<forall>k < length (sorted_list_of_set (np_str ` set ls)).
        label_to_integer ls (sorted_list_of_set (np_str ` set ls) ! k) = Some (py_str k))
   \<and> ran (label_to_integer ls) = py_str ` {0..<card (np_str ` set ls)}
   \<and> label_to_integer [] = Map.empty
   \<and> ((\<forall>l \<in> set ls. l = [] \<or> last l \<noteq> CHR 0x00) \<longrightarrow>
        dom (label_to_integer ls) = set ls
        \<and> (\<forall>k < length (sorted_list_of_set (set ls)).
             label_to_integer ls (sorted_list_of_set (set ls) ! k) = Some (py_str k))
        \<and> ran (label_to_integer ls) = py_str ` {0..<card (set ls)})"
proof -
  let ?u = "sorted_list_of_set (np_str ` set ls)"
  have z: "label_to_integer ls = map_of (zip ?u (map py_str [0..<length ?u]))"
    by (simp add: label_to_integer_zip np_unique_eq)
  have 1: "dom (label_to_integer ls) = np_str ` set ls"
    unfolding z by (subst dom_map_of_zip) simp_all
  have 2: "\<forall>k < length ?u. label_to_integer ls (?u ! k) = Some (py_str k)"
    unfolding z by (simp add: map_of_zip_nth)
  have 3: "label_to_integer [] = Map.empty"
    by (simp add: label_to_integer_def np_unique_def np_array_str_def)
  have "ran (label_to_integer ls) = set (map py_str [0..<length ?u])"
    unfolding z by (rule ran_map_of_zip) simp_all
  then have 4: "ran (label_to_integer ls) = py_str ` {0..<card (np_str ` set ls)}"
    by simp
  have 5: "dom (label_to_integer ls) = set ls
        \<and> (\<forall>k < length (sorted_list_of_set (set ls)).
             label_to_integer ls (sorted_list_of_set (set ls) ! k) = Some (py_str k))
        \<and> ran (label_to_integer ls) = py_str ` {0..<card (set ls)}"
    if "\<forall>l \<in> set ls. l = [] \<or> last l \<noteq> CHR 0x00"
  proof -
    have "np_str ` set ls = set ls"
      using that by (auto simp: np_str_no_trailing_nul image_iff)
    with 1 2 4 show ?thesis by simp
  qed
  from 1 2 3 4 5 show ?thesis by blast
qed

text \<open>
  Claim C7 as the specification states it fails on a writer-id that ends with a NUL
  character: it is no key of the map, and \<open>b\<close>, the third of the three distinct
  writer-ids in sorted order, gets the code 1.
\<close>

theorem label_to_integer_nul_counterexample:
  "label_to_integer [''a'' @ [CHR 0x00], ''a'', ''b''] (''a'' @ [CHR 0x00]) = None
   \<and> label_to_integer [''a'' @ [CHR 0x00], ''a'', ''b''] ''b'' = Some ''1''
   \<and> sorted_list_of_set (set [''a'' @ [CHR 0x00], ''a'', ''b'']) ! 2 = ''b''"
  by code_simp

theorem label_to_integer_spec_witness:
  "label_to_integer [''w02'', ''w01'', ''w02''] ''w02'' = Some ''1''
   \<and> dom (label_to_integer [''w02'', ''w01'', ''w02'']) = {''w01'', ''w02''}
   \<and> sorted_list_of_set (set [''w02'', ''w01'', ''w02'']) = [''w01'', ''w02'']"
proof -
  have u: "sorted_list_of_set (set [''w02'', ''w01'', ''w02'']) = [''w01'', ''w02'']"
    by code_simp
  have s: "py_str 1 = ''1''"
    by code_simp
  have n: "[''w01'', ''w02''] ! 1 = ''w02''" by simp
  have h: "\<forall>l \<in> set [''w02'', ''w01'', ''w02'']. l = [] \<or> last l \<noteq> CHR 0x00"
    by simp
  from label_to_integer_spec [of "[''w02'', ''w01'', ''w02'']"] h
  have d: "dom (label_to_integer [''w02'', ''w01'', ''w02'']) = set [''w02'', ''w01'', ''w02'']"
    and a: "\<forall>k<length [''w01'', ''w02''].
           label_to_integer [''w02'', ''w01'', ''w02''] ([''w01'', ''w02''] ! k) = Some (py_str k)"
    unfolding u by blast+
  have l: "(1::nat) < length [''w01'', ''w02'']" by simp
  from a l have "label_to_integer [''w02'', ''w01'', ''w02''] ([''w01'', ''w02''] ! 1) = Some (py_str 1)"
    by blast
  then have v: "label_to_integer [''w02'', ''w01'', ''w02''] ''w02'' = Some ''1''"
    unfolding n s .
  have d': "dom (label_to_integer [''w02'', ''w01'', ''w02'']) = {''w01'', ''w02''}"
    unfolding d by auto
  show ?thesis using u v d' by blast
qed

subsection \<open>Drawing the triplet\<close>

lemma np_where_map:
  "np_where (map P xs) = filter (\<lambda>i. P (xs ! i)) [0..<length xs]"
  unfolding np_where_def by (rule filter_cong) simp_all

lemma np_where_labels:
  "np_where (map P (np_array_str labels))
     = filter (\<lambda>i. P (np_str (labels ! i))) [0..<length labels]"
  unfolding np_where_def np_array_str_def by (rule filter_cong) simp_all

lemma np_delete_where:
  "np_delete arr (np_where (map Q arr)) = filter (\<lambda>x. \<not> Q x) arr"
proof -
  have "filter (\<lambda>i. i \<notin> set (np_where (map Q arr))) [0..<length arr]
      = filter ((\<lambda>x. \<not> Q x) \<circ> nth arr) [0..<length arr]"
    by (rule filter_cong) (auto simp: np_where_map)
  then have "np_delete arr (np_where (map Q arr))
      = filter (\<lambda>x. \<not> Q x) (map (nth arr) [0..<length arr])"
    unfolding np_delete_def filter_map by simp
  then show ?thesis by (simp add: map_nth)
qed

lemma sample_indices_candidates:
  "sample_indices labels idx r1 r2 =
     (case py_index labels idx of
        Inl e \<Rightarrow> Inl e
      | Inr a \<Rightarrow>
          (case random_choice (pos_candidates labels a idx) r1 of
             Inl e \<Rightarrow> Inl e
           | Inr p \<Rightarrow>
               (case random_choice (neg_candidates labels a) r2 of
                  Inl e \<Rightarrow> Inl e
                | Inr n \<Rightarrow> Inr (p, n))))"
  unfolding sample_indices_def Let_def np_delete_where
  unfolding np_where_labels pos_candidates_def neg_candidates_def
  by simp

lemma random_choice_mem:
  "a \<noteq> [] \<Longrightarrow> \<exists>x \<in> set a. random_choice a r = Inr x"
  by (simp add: random_choice_def)

lemma random_choice_empty: "random_choice [] r = Inl ValueError"
  by (simp add: random_choice_def)

lemma py_index_nonneg:
  "0 \<le> i \<Longrightarrow> i < int (length xs) \<Longrightarrow> py_index xs i = Inr (xs ! nat i)"
  by (simp add: py_index_def)

text \<open>
  Claim C1, as the code has it. Let \<open>i\<close> be an index of the dataset from 0 to its length
  less one, such that some other index has the label of \<open>i\<close> and some index has another
  label, labels being compared as the numpy array of line 27 holds them (without the NUL
  characters at their end). Then, whatever the two random draws are, \<^verbatim>\<open>__getitem__\<close>
  chooses a positive index \<open>p\<close> and a negative index \<open>n\<close> with \<open>p \<noteq> i\<close>, the label of \<open>p\<close>
  equal to that of \<open>i\<close> up to NUL characters at the end, and the label of \<open>n\<close> different
  from that of \<open>i\<close>. When no label ends with a NUL character the label of \<open>p\<close> is the
  label of \<open>i\<close>.
\<close>

theorem sample_indices_sound:
  assumes "0 \<le> i" and "i < int (length labels)"
    and "\<exists>j < length labels. int j \<noteq> i \<and> np_str (labels ! j) = np_str (labels ! nat i)"
    and "\<exists>j < length labels. np_str (labels ! j) \<noteq> np_str (labels ! nat i)"
  shows "\<exists>p n. sample_indices labels i r1 r2 = Inr (p, n)
           \<and> p < length labels \<and> n < length labels
           \<and> int p \<noteq> i \<and> np_str (labels ! p) = np_str (labels ! nat i)
           \<and> np_str (labels ! n) \<noteq> np_str (labels ! nat i)
           \<and> labels ! n \<noteq> labels ! nat i
           \<and> ((\<forall>l \<in> set labels. l = [] \<or> last l \<noteq> CHR 0x00)
                \<longrightarrow> labels ! p = labels ! nat i)"
proof -
  define a where "a = labels ! nat i"
  from assms(3) obtain j where j: "j < length labels" "int j \<noteq> i"
      "np_str (labels ! j) = np_str a"
    unfolding a_def by blast
  then have "j \<in> set (pos_candidates labels a i)"
    by (simp add: pos_candidates_def)
  then have "pos_candidates labels a i \<noteq> []" by force
  then obtain p where p: "p \<in> set (pos_candidates labels a i)"
      "random_choice (pos_candidates labels a i) r1 = Inr p"
    using random_choice_mem by blast
  from assms(4) obtain k where k: "k < length labels" "np_str (labels ! k) \<noteq> np_str a"
    unfolding a_def by blast
  then have "k \<in> set (neg_candidates labels a)"
    by (simp add: neg_candidates_def)
  then have "neg_candidates labels a \<noteq> []" by force
  then obtain n where n: "n \<in> set (neg_candidates labels a)"
      "random_choice (neg_candidates labels a) r2 = Inr n"
    using random_choice_mem by blast
  have "py_index labels i = Inr a"
    unfolding a_def using assms(1,2) by (rule py_index_nonneg)
  then have res: "sample_indices labels i r1 r2 = Inr (p, n)"
    using p(2) n(2) by (simp add: sample_indices_candidates)
  have pp: "p < length labels" "int p \<noteq> i" "np_str (labels ! p) = np_str a"
    using p(1) by (simp_all add: pos_candidates_def)
  have nn: "n < length labels" "np_str (labels ! n) \<noteq> np_str a"
    using n(1) by (simp_all add: neg_candidates_def)
  from nn(2) have ne: "labels ! n \<noteq> a" by blast
  have eq: "labels ! p = a" if nul: "\<forall>l \<in> set labels. l = [] \<or> last l \<noteq> CHR 0x00"
  proof -
    have "labels ! p \<in> set labels" using pp(1) by (rule nth_mem)
    with nul have 1: "np_str (labels ! p) = labels ! p"
      by (intro np_str_no_trailing_nul) blast
    have "nat i < length labels" using assms(1,2) by simp
    then have "a \<in> set labels" unfolding a_def by (rule nth_mem)
    with nul have 2: "np_str a = a"
      by (intro np_str_no_trailing_nul) blast
    from pp(3) show ?thesis unfolding 1 2 .
  qed
  from res pp nn ne eq show ?thesis
    unfolding a_def by blast
qed

text \<open>
  Claim C1 as the specification states it fails in two places. With the labels
  \<open>w1\<close> plus NUL, \<open>w1\<close>, \<open>w1\<close>, \<open>w2\<close> and the anchor 1, the index 0 is drawn as the
  positive, whose label is not the label of the anchor. With the anchor -1, which line 26
  takes as the position 2, that same position 2 is drawn as the positive.
\<close>

theorem sample_indices_sound_counterexample:
  "sample_indices [''w1'' @ [CHR 0x00], ''w1'', ''w1'', ''w2''] 1 0 0 = Inr (0, 3)
   \<and> [''w1'' @ [CHR 0x00], ''w1'', ''w1'', ''w2''] ! 0
       \<noteq> [''w1'' @ [CHR 0x00], ''w1'', ''w1'', ''w2''] ! 1
   \<and> sample_indices [''w1'', ''w2'', ''w1''] (- 1) 1 0 = Inr (2, 1)
   \<and> py_index [''w1'', ''w2'', ''w1''] (- 1) = py_index [''w1'', ''w2'', ''w1''] 2"
  by code_simp

theorem sample_indices_sound_witness:
  "(0::int) \<le> 0 \<and> (0::int) < int (length [''a'', ''b'', ''a''])
   \<and> sample_indices [''a'', ''b'', ''a''] 0 5 7 = Inr (2, 1)
   \<and> [''a'', ''b'', ''a''] ! 2 = [''a'', ''b'', ''a''] ! nat 0"
proof -
  have h1: "\<exists>j < length [''a'', ''b'', ''a'']. int j \<noteq> 0
      \<and> np_str ([''a'', ''b'', ''a''] ! j) = np_str ([''a'', ''b'', ''a''] ! nat 0)"
    by (rule exI [of _ 2]) simp
  have h2: "\<exists>j < length [''a'', ''b'', ''a''].
      np_str ([''a'', ''b'', ''a''] ! j) \<noteq> np_str ([''a'', ''b'', ''a''] ! nat 0)"
    by (rule exI [of _ 1]) (simp add: np_str_def)
  have h3: "(0::int) < int (length [''a'', ''b'', ''a''])" by simp
  have h4: "\<forall>l \<in> set [''a'', ''b'', ''a'']. l = [] \<or> last l \<noteq> CHR 0x00" by simp
  have v: "sample_indices [''a'', ''b'', ''a''] 0 5 7 = Inr (2, 1)"
    by code_simp
  from sample_indices_sound [OF order_refl h3 h1 h2, of 5 7] v h4
  have "[''a'', ''b'', ''a''] ! 2 = [''a'', ''b'', ''a''] ! nat 0"
    by auto
  with v h3 show ?thesis by simp
qed

lemma count_one_unique:
  assumes "count_list xs a = 1" and "i < length xs" and "xs ! i = a"
    and "j < length xs" and "xs ! j = a"
  shows "j = i"
proof (rule ccontr)
  assume ne: "j \<noteq> i"
  let ?S = "{k. k < length xs \<and> a = xs ! k}"
  have fin: "finite ?S" by simp
  have "{i, j} \<subseteq> ?S" using assms by auto
  then have "card {i, j} \<le> card ?S" using fin by (rule card_mono [rotated])
  moreover have "card {i, j} = 2" using ne by simp
  moreover have "card ?S = count_list xs a"
    by (simp add: count_list_eq_length_filter length_filter_conv_card)
  ultimately show False using assms(1) by simp
qed

lemma pos_candidates_single:
  assumes "0 \<le> i" and "i < int (length labels)"
    and "count_list (np_array_str labels) (np_str (labels ! nat i)) = 1"
  shows "pos_candidates labels (labels ! nat i) i = []"
proof -
  have "\<And>j. j < length labels \<Longrightarrow> np_str (labels ! j) = np_str (labels ! nat i) \<Longrightarrow> int j = i"
  proof -
    fix j assume "j < length labels" "np_str (labels ! j) = np_str (labels ! nat i)"
    with assms have "j = nat i"
      by (intro count_one_unique
            [of "np_array_str labels" "np_str (labels ! nat i)" "nat i" j])
         (simp_all add: np_array_str_def)
    with assms(1) show "int j = i" by simp
  qed
  then show ?thesis
    by (auto simp: pos_candidates_def filter_empty_conv)
qed

lemma read_image_state: "snd (read_image self fs idx) = self"
  by (simp add: read_image_def split: sum.splits)

lemma getitem_state: "snd (getitem self fs idx r1 r2) = self"
proof -
  have r: "\<And>s i x t. read_image s fs i = (x, t) \<Longrightarrow> t = s"
    using read_image_state by (metis snd_conv)
  show ?thesis
    unfolding getitem_def
    by (auto split: sum.splits prod.splits dest!: r)
qed

text \<open>
  Claim C9. A call of \<^verbatim>\<open>__getitem__\<close>, at any index and with any random draws, whether it
  returns a triplet or raises, leaves the dataset object as it was: \<^verbatim>\<open>image_path_list\<close>,
  \<^verbatim>\<open>label_list\<close> and \<^verbatim>\<open>label2int_map\<close> are the same afterwards, and so is the whole
  object. The same holds for \<^verbatim>\<open>read_image\<close>.
\<close>

theorem getitem_frame:
  "image_path_list (snd (getitem self fs idx r1 r2)) = image_path_list self
   \<and> label_list (snd (getitem self fs idx r1 r2)) = label_list self
   \<and> label2int_map (snd (getitem self fs idx r1 r2)) = label2int_map self
   \<and> snd (getitem self fs idx r1 r2) = self
   \<and> snd (read_image self fs idx) = self"
  by (simp add: getitem_state read_image_state)

text \<open>
  Claim C8, as the code has it. For an index \<open>i\<close> of the dataset from 0 to its length
  less one whose label occurs exactly once in \<^verbatim>\<open>label_list\<close>, labels being compared as
  the numpy array of line 27 holds them (without the NUL characters at their end),
  \<^verbatim>\<open>__getitem__\<close> fails with the \<open>ValueError\<close> that \<^verbatim>\<open>np.random.choice\<close> raises on the
  empty list of positive candidates, whatever the random draws are; nothing catches it.
\<close>

theorem getitem_no_positive:
  assumes "0 \<le> i" and "i < int (length (label_list self))"
    and "count_list (np_array_str (label_list self)) (np_str (label_list self ! nat i)) = 1"
  shows "getitem self fs i r1 r2 = (Inl ValueError, self)
         \<and> sample_indices (label_list self) i r1 r2 = Inl ValueError"
proof -
  have "sample_indices (label_list self) i r1 r2 = Inl ValueError"
    using assms
    by (simp add: sample_indices_candidates py_index_nonneg pos_candidates_single
        random_choice_empty)
  then show ?thesis by (simp add: getitem_def)
qed

text \<open>
  Claim C8 as the specification states it fails in two places. In \<open>nul_samples\<close> the
  label \<open>w1\<close> of index 1 occurs once, and a triplet is returned: the index 0, whose
  label is \<open>w1\<close> plus NUL, is a positive candidate. In \<open>three_samples\<close> the label of the
  index -2 occurs once, and a triplet is returned: line 29 leaves the position of the
  anchor among the positive candidates.
\<close>

theorem getitem_no_positive_counterexample:
  "count_list (label_list nul_samples) (label_list nul_samples ! 1) = 1
   \<and> fst (getitem nul_samples one_pixel_fs 1 0 0)
       = Inr (Array3 [[[10]], [[20]], [[30]]], Array3 [[[10]], [[20]], [[30]]],
              Array3 [[[10]], [[20]], [[30]]])
   \<and> py_index (label_list three_samples) (- 2) = Inr ''w2''
   \<and> count_list (label_list three_samples) ''w2'' = 1
   \<and> fst (getitem three_samples one_pixel_fs (- 2) 5 7)
       = Inr (Array3 [[[10]], [[20]], [[30]]], Array3 [[[10]], [[20]], [[30]]],
              Array3 [[[10]], [[20]], [[30]]])"
  by code_simp

theorem getitem_no_positive_witness:
  "(0::int) \<le> 1 \<and> 1 < int (length (label_list three_samples))
   \<and> count_list (np_array_str (label_list three_samples))
        (np_str (label_list three_samples ! nat 1)) = 1
   \<and> getitem three_samples one_pixel_fs 1 5 7 = (Inl ValueError, three_samples)"
proof -
  have h2: "1 < int (length (label_list three_samples))"
    by (simp add: three_samples_def)
  have h3: "count_list (np_array_str (label_list three_samples))
        (np_str (label_list three_samples ! nat 1)) = 1"
    by code_simp
  have h1: "(0::int) \<le> 1" by simp
  from getitem_no_positive [OF h1 h2 h3, of one_pixel_fs 5 7] h1 h2 h3
  show ?thesis by blast
qed

theorem getitem_frame_witness:
  "snd (getitem three_samples one_pixel_fs 0 5 7) = three_samples
   \<and> fst (getitem three_samples one_pixel_fs 0 5 7)
       = Inr (Array3 [[[10]], [[20]], [[30]]], Array3 [[[10]], [[20]], [[30]]],
              Array3 [[[10]], [[20]], [[30]]])"
proof -
  have v: "fst (getitem three_samples one_pixel_fs 0 5 7)
       = Inr (Array3 [[[10]], [[20]], [[30]]], Array3 [[[10]], [[20]], [[30]]],
              Array3 [[[10]], [[20]], [[30]]])"
    by code_simp
  from getitem_frame [of three_samples one_pixel_fs 0 5 7] v
  show ?thesis by blast
qed

subsection \<open>Reading an image\<close>

lemma parent_glob: "p \<in> set (glob_all fs d) \<Longrightarrow> parent p = d"
  by (auto simp: glob_all_def parent_def)

lemma first_opening_Cons:
  "first_opening fs (p # ps) =
     (case image_open fs p of Some img \<Rightarrow> Inr img | None \<Rightarrow> first_opening fs ps)"
  by (auto simp: first_opening_def split: option.splits)

lemma read_image_loop_from:
  assumes "parent p = d" and "j \<le> length (glob_all fs d)"
  shows "read_image_loop fs p (int j - int (length (glob_all fs d))) =
           (case image_open fs p of
              Some img \<Rightarrow> Inr img
            | None \<Rightarrow> first_opening fs (rev (take j (glob_all fs d))))"
  using assms
proof (induction j arbitrary: p)
  case 0
  show ?case
    by (subst read_image_loop.simps)
       (simp add: 0 py_index_def first_opening_def split: option.splits)
next
  case (Suc j)
  let ?files = "glob_all fs d"
  let ?n = "length ?files"
  have j: "j < ?n" using Suc.prems by simp
  have idx: "py_index ?files (int j - int ?n) = Inr (?files ! j)"
    using j by (auto simp: py_index_def)
  have par: "parent (?files ! j) = d"
    using j by (intro parent_glob [of _ fs]) simp
  have ih: "read_image_loop fs (?files ! j) (int j - int ?n) =
           (case image_open fs (?files ! j) of
              Some img \<Rightarrow> Inr img
            | None \<Rightarrow> first_opening fs (rev (take j ?files)))"
    using Suc.IH [OF par] j by simp
  have tk: "rev (take (Suc j) ?files) = ?files ! j # rev (take j ?files)"
    using j by (simp add: take_Suc_conv_app_nth)
  show ?case
    by (subst read_image_loop.simps)
       (simp add: Suc.prems(1) idx tk first_opening_Cons ih split: option.splits)
qed

lemma read_image_loop_closed:
  "read_image_loop fs p (- 1) = first_opening fs (p # probe_order (glob_all fs (parent p)))"
proof (cases "glob_all fs (parent p) = []")
  case True
  then show ?thesis
    by (subst read_image_loop.simps)
       (simp add: py_index_def first_opening_def probe_order_def split: option.splits)
next
  case False
  let ?files = "glob_all fs (parent p)"
  have n: "int (length ?files - 1) - int (length ?files) = - 1"
    using False by (cases ?files) simp_all
  have "read_image_loop fs p (int (length ?files - 1) - int (length ?files)) =
           (case image_open fs p of
              Some img \<Rightarrow> Inr img
            | None \<Rightarrow> first_opening fs (rev (take (length ?files - 1) ?files)))"
    by (rule read_image_loop_from) simp_all
  then show ?thesis
    unfolding n probe_order_def butlast_conv_take first_opening_Cons .
qed

lemma first_opening_decoded:
  assumes "opened_files_load fs ps"
  shows "(case first_opening fs ps of
            Inl e \<Rightarrow> Inl e
          | Inr img \<Rightarrow> np_array_image img) = first_decoded fs ps"
  using assms
proof (induction ps)
  case Nil
  then show ?case by (simp add: first_opening_def first_decoded_def)
next
  case (Cons p ps)
  from Cons.prems have p: "image_open fs p \<noteq> Some Undecodable"
    and rest: "opened_files_load fs ps"
    by (simp_all add: opened_files_load_def)
  have fd: "first_decoded fs (p # ps) =
      (case decoded fs p of Some arr \<Rightarrow> Inr arr | None \<Rightarrow> first_decoded fs ps)"
    by (auto simp: first_decoded_def split: option.splits)
  show ?case
  proof (cases "image_open fs p")
    case None
    then show ?thesis
      using Cons.IH [OF rest] by (simp add: first_opening_Cons fd decoded_def)
  next
    case (Some img)
    with p obtain arr where "img = Decodable arr" by (cases img) auto
    with Some show ?thesis
      by (simp add: first_opening_Cons fd decoded_def np_array_image_def)
  qed
qed

text \<open>
  Claim C2, as the code has it. Take a folder in which no file opens without loading
  (what the code does with a file that opens and does not load is shown below and is no
  part of this statement). When the file at the recorded path of the sample does not
  decode, \<^verbatim>\<open>read_image\<close> does not raise there: it tries the entries of the listing of that
  file's folder from the last but one backwards (\<^verbatim>\<open>files[-2]\<close>, \<^verbatim>\<open>files[-3]\<close>, ...,
  \<^verbatim>\<open>files[0]\<close>), wherever the recorded file stands in the listing, until one decodes;
  when none does, the \<open>IndexError\<close> of the exhausted listing leaves the function. Of a
  decoded array with a channel axis every pixel keeps its first 3 channels, all of them
  when it has fewer. The entry tried first is the one before the recorded file exactly
  when the recorded file is the last entry of the listing.
\<close>

theorem read_image_probes_from_end:
  assumes "py_index (image_path_list (self :: 'v dataset)) idx = Inr image_path"
    and "opened_files_load fs (image_path # glob_all fs (parent image_path))"
  shows "fst (read_image self fs idx) =
           (case first_decoded fs
                   (image_path # rev (butlast (glob_all fs (parent image_path)))) of
              Inl e \<Rightarrow> Inl e
            | Inr arr \<Rightarrow> slice_rgb arr)
         \<and> (\<forall>rows. slice_rgb (Array3 rows :: 'v ndarray) = Inr (Array3 (map (map (take 3)) rows)))"
proof -
  let ?ps = "image_path # rev (butlast (glob_all fs (parent image_path)))"
  have "set ?ps \<subseteq> set (image_path # glob_all fs (parent image_path))"
    by (auto dest: in_set_butlastD)
  with assms(2) have "opened_files_load fs ?ps"
    unfolding opened_files_load_def list_all_iff by blast
  then have "(case first_opening fs ?ps of
            Inl e \<Rightarrow> Inl e
          | Inr img \<Rightarrow> np_array_image img) = first_decoded fs ?ps"
    by (rule first_opening_decoded)
  then have "fst (read_image self fs idx) =
           (case first_decoded fs ?ps of Inl e \<Rightarrow> Inl e | Inr arr \<Rightarrow> slice_rgb arr)"
    using assms(1)
    by (auto simp: read_image_def read_image_loop_closed probe_order_def split: sum.splits)
  then show ?thesis by (simp add: slice_rgb_def)
qed

text \<open>
  Claim C2 as the specification states it fails in four places, each on the one sample
  of \<open>frame_dataset\<close>, whose recorded file is frame 150. Listed first and not opening: the
  code returns frame 148, listed after it, where no file precedes it. Listed last, opening
  and not loading: the code raises \<open>OSError\<close> and tries no other file, where frame 149
  precedes it and decodes. Decoding to pixels of two channels: both are kept, not three.
  Decoding to an array without a channel axis: the slice raises \<open>IndexError\<close>.
\<close>

theorem read_image_preceding_counterexample:
  "fst (read_image frame_dataset (frame_folder listed_first None) 0)
     = Inr (Array3 [[[1, 2, 3]]])
   \<and> spec_read_image (frame_folder listed_first None) (image_path_list frame_dataset ! 0)
     = Inl IndexError
   \<and> fst (read_image frame_dataset (frame_folder listed_last (Some Undecodable)) 0)
     = Inl OSError
   \<and> spec_read_image (frame_folder listed_last (Some Undecodable))
        (image_path_list frame_dataset ! 0)
     = Inr (Array3 [[[4, 5, 6]]])
   \<and> fst (read_image frame_dataset
            (frame_folder listed_last (Some (Decodable (Array3 [[[7, 255]]])))) 0)
     = Inr (Array3 [[[7, 255]]])
   \<and> fst (read_image frame_dataset
            (frame_folder listed_last (Some (Decodable (Array2 [[7]])))) 0)
     = Inl IndexError"
  by code_simp

theorem read_image_probes_from_end_witness:
  "py_index (image_path_list frame_dataset) 0 = Inr [''d'', ''f_0150_x1.png'']
   \<and> opened_files_load (frame_folder listed_last None)
        ([''d'', ''f_0150_x1.png'']
         # glob_all (frame_folder listed_last None) (parent [''d'', ''f_0150_x1.png'']))
   \<and> rev (butlast (glob_all (frame_folder listed_last None) (parent [''d'', ''f_0150_x1.png''])))
       = [[''d'', ''f_0149_x1.png''], [''d'', ''f_0148_x1.png'']]
   \<and> fst (read_image frame_dataset (frame_folder listed_last None) 0)
       = Inr (Array3 [[[4, 5, 6]]])"
proof -
  have h: "py_index (image_path_list frame_dataset) 0 = Inr [''d'', ''f_0150_x1.png'']"
    by (simp add: py_index_def frame_dataset_def)
  have l: "opened_files_load (frame_folder listed_last None)
        ([''d'', ''f_0150_x1.png'']
         # glob_all (frame_folder listed_last None) (parent [''d'', ''f_0150_x1.png'']))"
    by code_simp
  have b: "rev (butlast (glob_all (frame_folder listed_last None)
                  (parent [''d'', ''f_0150_x1.png''])))
       = [[''d'', ''f_0149_x1.png''], [''d'', ''f_0148_x1.png'']]"
    by code_simp
  have c: "first_decoded (frame_folder listed_last None)
       [[''d'', ''f_0150_x1.png''], [''d'', ''f_0149_x1.png''], [''d'', ''f_0148_x1.png'']]
       = Inr (Array3 [[[4, 5, 6, 255]]])"
    by code_simp
  have d: "slice_rgb (Array3 [[[4, 5, 6, 255 :: nat]]]) = Inr (Array3 [[[4, 5, 6]]])"
    by (simp add: slice_rgb_def)
  from read_image_probes_from_end [OF h l, THEN conjunct1]
  have "fst (read_image frame_dataset (frame_folder listed_last None) 0)
       = Inr (Array3 [[[4, 5, 6]]])"
    unfolding b c by (simp add: d)
  with h l b show ?thesis by blast
qed

subsection \<open>The path resolver as a run over the processed writer-attempts\<close>

lemma select_images_acc:
  "select_images fs lp pairs acc =
     (case select_images fs lp pairs [] of Inl e \<Rightarrow> Inl e | Inr xs \<Rightarrow> Inr (acc @ xs))"
proof (induction pairs arbitrary: acc)
  case Nil
  then show ?case by simp
next
  case (Cons pr pairs)
  obtain d l where pr: "pr = (d, l)" by (cases pr)
  show ?case
    unfolding pr
    by (simp add: Cons.IH [of "acc @ _"] Cons.IH [of "[_]"]
        split: list.splits sum.splits)
qed

lemma read_attempt_acc:
  "read_attempt fs a b (ipl, ll) =
     (case read_attempt fs a b ([], []) of
        Inl e \<Rightarrow> Inl e
      | Inr (xs, ys) \<Rightarrow> Inr (ipl @ xs, ll @ ys))"
  unfolding read_attempt_def Let_def
  by (simp add: select_images_acc [of _ _ _ ipl] split: list.splits sum.splits option.splits)

lemma loop_tf_run:
  "loop_tf fs t sc i ps st = run_attempts fs (visited_tf t sc i ps) st"
proof (induction ps arbitrary: i st)
  case Nil
  then show ?case by simp
next
  case (Cons pr ps)
  obtain a b where pr: "pr = (a, b)" by (cases pr)
  show ?case
    unfolding pr by (simp add: Cons.IH split: sum.splits)
qed

lemma run_attempts_append:
  "run_attempts fs (xs @ ys) st =
     (case run_attempts fs xs st of Inl e \<Rightarrow> Inl e | Inr st' \<Rightarrow> run_attempts fs ys st')"
proof (induction xs arbitrary: st)
  case Nil
  then show ?case by simp
next
  case (Cons pr xs)
  obtain a b where pr: "pr = (a, b)" by (cases pr)
  show ?case
    unfolding pr by (simp add: Cons.IH split: sum.splits)
qed

lemma loop_sen_run:
  "loop_sen fs t sc i ps st = run_attempts fs (visited_sen fs t sc i ps) st"
proof (induction ps arbitrary: i st)
  case Nil
  then show ?case by simp
next
  case (Cons pr ps)
  obtain a b where pr: "pr = (a, b)" by (cases pr)
  show ?case
    unfolding pr by (simp add: Cons.IH loop_tf_run run_attempts_append split: sum.splits)
qed

lemma read_paths_run:
  "read_paths fs root t sc =
     (case run_attempts fs (visited_attempts fs root t sc) ([], []) of
        Inl e \<Rightarrow> Inl e
      | Inr (ipl, ll) \<Rightarrow>
          if length ipl = length ll then Inr (ipl, ll) else Inl ListLengthAssertion)"
  unfolding read_paths_def visited_attempts_def image_root_def label_root_def Let_def
  by (simp add: loop_sen_run)


lemma select_images_Inr:
  "select_images fs lp pairs [] = Inr xs \<Longrightarrow>
   list_all2 (\<lambda>pr p. selected_image fs (fst pr) = Some p
                \<and> (\<exists>seg. py_index p (- 3) = Inr seg \<and> py_index lp (- 3) = Inr seg)) pairs xs"
proof (induction pairs arbitrary: xs)
  case Nil
  then show ?case by simp
next
  case (Cons pr pairs)
  obtain d l where pr: "pr = (d, l)" by (cases pr)
  from Cons.prems obtain p ps seg where g: "glob_0150 fs d = p # ps"
    and s1: "py_index p (- 3) = Inr seg" and s2: "py_index lp (- 3) = Inr seg"
    and r: "select_images fs lp pairs [p] = Inr xs"
    unfolding pr by (auto split: list.splits sum.splits if_splits)
  from r obtain ys where ys: "select_images fs lp pairs [] = Inr ys" and xs: "xs = p # ys"
    by (subst (asm) select_images_acc) (auto split: sum.splits)
  have "selected_image fs d = Some p" using g by (simp add: selected_image_def)
  with s1 s2 Cons.IH [OF ys] show ?case
    unfolding pr xs by auto
qed

lemma read_attempt_Inr:
  assumes "read_attempt fs a b ([], []) = Inr (xs, ys)"
  shows "length (glob_all fs a) = length (glob_all fs b)"
    and "list_all2 (\<lambda>d p. selected_image fs d = Some p) (glob_all fs a) xs"
    and "\<exists>lp label. label_path_of fs b = Some lp \<and> person_id fs lp = Some label
           \<and> ys = replicate (length (glob_all fs b)) label
           \<and> (\<forall>p \<in> set xs. \<exists>seg. py_index p (- 3) = Inr seg \<and> py_index lp (- 3) = Inr seg)"
proof -
  from assms have len: "length (glob_all fs a) = length (glob_all fs b)"
    unfolding read_attempt_def Let_def by (auto split: if_splits)
  from assms len obtain lab0 rest label where
    b: "glob_all fs b = lab0 # rest"
    and sel: "select_images fs (lab0 @ [''labels(sent1).json''])
                (zip (glob_all fs a) (glob_all fs b)) [] = Inr xs"
    and pid: "person_id fs (lab0 @ [''labels(sent1).json'']) = Some label"
    and ys: "ys = replicate (length (glob_all fs b)) label"
    unfolding read_attempt_def Let_def
    by (auto split: list.splits sum.splits option.splits)
  let ?lp = "lab0 @ [''labels(sent1).json'']"
  note la = select_images_Inr [OF sel]
  have lx: "length xs = length (glob_all fs a)"
    using list_all2_lengthD [OF la] len by simp
  show "length (glob_all fs a) = length (glob_all fs b)" by (rule len)
  show "list_all2 (\<lambda>d p. selected_image fs d = Some p) (glob_all fs a) xs"
    using la lx len by (auto simp: list_all2_conv_all_nth)
  have "\<forall>p \<in> set xs. \<exists>seg. py_index p (- 3) = Inr seg \<and> py_index ?lp (- 3) = Inr seg"
    using la lx len by (auto simp: list_all2_conv_all_nth in_set_conv_nth)
  moreover have "label_path_of fs b = Some ?lp"
    by (simp add: label_path_of_def b)
  ultimately show "\<exists>lp label. label_path_of fs b = Some lp \<and> person_id fs lp = Some label
           \<and> ys = replicate (length (glob_all fs b)) label
           \<and> (\<forall>p \<in> set xs. \<exists>seg. py_index p (- 3) = Inr seg \<and> py_index lp (- 3) = Inr seg)"
    using pid ys by blast
qed

lemma read_attempt_entries:
  assumes "read_attempt fs a b ([], []) = Inr (xs, ys)"
  shows "list_all2 (entry_of_attempt fs a b) xs ys"
proof -
  note r = read_attempt_Inr [OF assms]
  from r(3) obtain lp label where lp: "label_path_of fs b = Some lp"
    "person_id fs lp = Some label" "ys = replicate (length (glob_all fs b)) label"
    by blast
  have lx: "length xs = length ys"
    using list_all2_lengthD [OF r(2)] r(1) lp(3) by simp
  have "\<And>k. k < length xs \<Longrightarrow> entry_of_attempt fs a b (xs ! k) (ys ! k)"
  proof -
    fix k assume k: "k < length xs"
    then have "selected_image fs (glob_all fs a ! k) = Some (xs ! k)"
      using r(2) by (simp add: list_all2_conv_all_nth)
    moreover have "glob_all fs a ! k \<in> set (glob_all fs a)"
      using k list_all2_lengthD [OF r(2)] by simp
    moreover have "ys ! k = label" using k lx lp(3) by simp
    ultimately show "entry_of_attempt fs a b (xs ! k) (ys ! k)"
      unfolding entry_of_attempt_def using lp(1,2) by auto
  qed
  with lx show ?thesis by (simp add: list_all2_conv_all_nth)
qed

lemma run_attempts_entries:
  assumes "run_attempts fs xs (ipl0, ll0) = Inr (ipl, ll)"
    and "list_all2 P ipl0 ll0"
    and "\<And>a b p l. (a, b) \<in> set xs \<Longrightarrow> entry_of_attempt fs a b p l \<Longrightarrow> P p l"
  shows "list_all2 P ipl ll"
  using assms
proof (induction xs arbitrary: ipl0 ll0)
  case Nil
  then show ?case by simp
next
  case (Cons pr xs)
  obtain a b where pr: "pr = (a, b)" by (cases pr)
  from Cons.prems(1) obtain us vs where
    ra: "read_attempt fs a b ([], []) = Inr (us, vs)"
    and rest: "run_attempts fs xs (ipl0 @ us, ll0 @ vs) = Inr (ipl, ll)"
    unfolding pr
    by (subst (asm) run_attempts.simps, subst (asm) read_attempt_acc)
       (auto split: sum.splits prod.splits)
  have "list_all2 (entry_of_attempt fs a b) us vs"
    by (rule read_attempt_entries [OF ra])
  moreover have "\<And>p l. entry_of_attempt fs a b p l \<Longrightarrow> P p l"
    using Cons.prems(3) [of a b] by (simp add: pr)
  ultimately have "list_all2 P us vs"
    by (rule list_all2_mono)
  with Cons.prems(2) have "list_all2 P (ipl0 @ us) (ll0 @ vs)"
    by (rule list_all2_appendI)
  moreover have "\<And>a b p l. (a, b) \<in> set xs \<Longrightarrow> entry_of_attempt fs a b p l \<Longrightarrow> P p l"
    using Cons.prems(3) by (meson list.set_intros(2))
  ultimately show ?case
    by (rule Cons.IH [OF rest])
qed

lemma py_index_writer_segment:
  "py_index (a @ [x, y]) (- 3) = (if a = [] then Inl IndexError else Inr (last a))"
proof (cases "a = []")
  case True
  then show ?thesis by (simp add: py_index_def)
next
  case False
  then have l: "1 \<le> length a" by (cases a) simp_all
  then have "nat (int (length (a @ [x, y])) + - 3) = length a - 1"
    by simp
  moreover have "(a @ [x, y]) ! (length a - 1) = last a"
    using False l by (simp add: nth_append last_conv_nth)
  moreover have "py_index (a @ [x, y]) (- 3)
      = Inr ((a @ [x, y]) ! nat (int (length (a @ [x, y])) + - 3))"
    using l unfolding py_index_def by simp
  ultimately show ?thesis
    using False by simp
qed

lemma selected_image_shape:
  "selected_image fs d = Some p \<Longrightarrow> \<exists>fname. p = d @ [fname]"
  by (auto simp: selected_image_def glob_0150_def split: list.splits)

lemma entry_of_attempt_shape:
  "entry_of_attempt fs a b p l \<Longrightarrow> \<exists>pos fname. p = a @ [pos, fname]"
  by (auto simp: entry_of_attempt_def glob_all_def dest!: selected_image_shape)

lemma read_attempt_same_name:
  assumes "read_attempt fs a b ([], []) = Inr (xs, ys)"
  shows "a \<noteq> [] \<and> b \<noteq> [] \<and> last a = last b"
proof -
  note r = read_attempt_Inr [OF assms]
  from r(3) obtain lp label where lp: "label_path_of fs b = Some lp"
    and seg: "\<forall>p \<in> set xs. \<exists>seg. py_index p (- 3) = Inr seg \<and> py_index lp (- 3) = Inr seg"
    by blast
  from lp obtain n0 where lpe: "lp = b @ [n0, ''labels(sent1).json'']" and ne: "glob_all fs b \<noteq> []"
    by (auto simp: label_path_of_def glob_all_def split: list.splits)
  from ne r(1) have "glob_all fs a \<noteq> []" by auto
  with r(2) obtain d p where d: "d \<in> set (glob_all fs a)" "p \<in> set xs" "selected_image fs d = Some p"
    by (cases "glob_all fs a"; cases xs) auto
  then obtain pos fname where p: "p = a @ [pos, fname]"
    by (auto simp: glob_all_def dest!: selected_image_shape)
  from seg d(2) obtain s where "py_index p (- 3) = Inr s" "py_index lp (- 3) = Inr s"
    by blast
  then show ?thesis
    unfolding p lpe py_index_writer_segment by (auto split: if_splits)
qed


lemma visited_tf_not_traced:
  "(a, b) \<in> set (visited_tf t sc i ps) \<Longrightarrow> \<not> is_traced a"
  by (induction ps arbitrary: i) (auto split: if_splits)

lemma visited_sen_not_traced:
  "(a, b) \<in> set (visited_sen fs t sc i ps) \<Longrightarrow> \<not> is_traced a"
proof (induction ps arbitrary: i)
  case Nil
  then show ?case by simp
next
  case (Cons pr ps)
  obtain c d where pr: "pr = (c, d)" by (cases pr)
  from Cons.prems consider
      "(a, b) \<in> set (visited_tf t sc 0 (zip (glob_all fs c) (glob_all fs d)))"
    | "(a, b) \<in> set (visited_sen fs t sc (Suc i) ps)"
    unfolding pr by (auto split: if_splits)
  then show ?case
  proof cases
    case 1
    then show ?thesis by (rule visited_tf_not_traced)
  next
    case 2
    then show ?thesis by (rule Cons.IH)
  qed
qed

lemma visited_attempts_not_traced:
  "(a, b) \<in> set (visited_attempts fs root t sc) \<Longrightarrow> \<not> is_traced a"
  unfolding visited_attempts_def by (rule visited_sen_not_traced)





lemma run_attempts_Inr_succeeds:
  "run_attempts fs xs st = Inr r \<Longrightarrow> \<forall>pr \<in> set xs. attempt_succeeds fs pr"
proof (induction xs arbitrary: st)
  case Nil
  then show ?case by simp
next
  case (Cons pr xs)
  obtain a b where pr: "pr = (a, b)" by (cases pr)
  obtain i0 l0 where st: "st = (i0, l0)" by (cases st)
  from Cons.prems obtain st' where ra: "read_attempt fs a b (i0, l0) = Inr st'"
    and rest: "run_attempts fs xs st' = Inr r"
    unfolding pr st by (auto split: sum.splits)
  from ra have "attempt_succeeds fs (a, b)"
    by (subst (asm) read_attempt_acc) (auto simp: attempt_succeeds_def split: sum.splits)
  with Cons.IH [OF rest] show ?case by (simp add: pr)
qed


subsection \<open>What a successful construction guarantees\<close>

lemma read_paths_Inr_run:
  assumes "read_paths fs root t sc = Inr (ipl, ll)"
  shows "run_attempts fs (visited_attempts fs root t sc) ([], []) = Inr (ipl, ll)"
  using assms unfolding read_paths_run by (auto split: sum.splits if_splits)

lemma read_paths_entries:
  assumes "read_paths fs root t sc = Inr (ipl, ll)"
  shows "list_all2 (\<lambda>p l. \<exists>(a, b) \<in> set (visited_attempts fs root t sc).
                      \<not> is_traced a \<and> \<not> is_traced b \<and> entry_of_attempt fs a b p l) ipl ll"
proof (rule run_attempts_entries [OF read_paths_Inr_run [OF assms]])
  show "list_all2 (\<lambda>p l. \<exists>(a, b) \<in> set (visited_attempts fs root t sc).
                      \<not> is_traced a \<and> \<not> is_traced b \<and> entry_of_attempt fs a b p l) [] []"
    by simp
next
  fix a b p l
  assume v: "(a, b) \<in> set (visited_attempts fs root t sc)" and e: "entry_of_attempt fs a b p l"
  have na: "\<not> is_traced a" using v by (rule visited_attempts_not_traced)
  have "attempt_succeeds fs (a, b)"
    using run_attempts_Inr_succeeds [OF read_paths_Inr_run [OF assms]] v by blast
  then obtain xs ys where "read_attempt fs a b ([], []) = Inr (xs, ys)"
    by (auto simp: attempt_succeeds_def split: sum.splits)
  then have "last a = last b" using read_attempt_same_name by blast
  with na have "\<not> is_traced b" by (simp add: is_traced_def)
  with na v e show "\<exists>(a, b) \<in> set (visited_attempts fs root t sc).
                      \<not> is_traced a \<and> \<not> is_traced b \<and> entry_of_attempt fs a b p l"
    by blast
qed

text \<open>
  Claim C6. After a successful \<^verbatim>\<open>read_paths\<close>, no path of \<^verbatim>\<open>image_path_list\<close> lies in
  a writer-attempt folder whose name contains the traced marker, and every entry, the
  path with the label at the same position of \<^verbatim>\<open>label_list\<close>, comes from one processed
  pair of writer-attempt folders neither of which is traced: the path is the file selected
  in a sub-subfolder of the image folder, the label is read from the label file of the
  label folder. So a traced writer-attempt contributes no path and no label.
\<close>

theorem traced_attempts_excluded:
  assumes "read_paths fs root t sc = Inr (ipl, ll)"
  shows "(\<forall>a pos fname. is_traced a \<longrightarrow> a @ [pos, fname] \<notin> set ipl)
       \<and> list_all2 (\<lambda>p l. \<exists>(a, b) \<in> set (visited_attempts fs root t sc).
                      \<not> is_traced a \<and> \<not> is_traced b \<and> entry_of_attempt fs a b p l) ipl ll"
proof -
  note la = read_paths_entries [OF assms]
  have "\<And>a pos fname. is_traced a \<Longrightarrow> a @ [pos, fname] \<in> set ipl \<Longrightarrow> False"
  proof -
    fix a pos fname
    assume tr: "is_traced a" and mem: "a @ [pos, fname] \<in> set ipl"
    from mem obtain k where k: "k < length ipl" "ipl ! k = a @ [pos, fname]"
      by (auto simp: in_set_conv_nth)
    with la obtain a' b' where "\<not> is_traced a'" "entry_of_attempt fs a' b' (a @ [pos, fname]) (ll ! k)"
      by (auto simp: list_all2_conv_all_nth)
    moreover then obtain pos' fname' where "a @ [pos, fname] = a' @ [pos', fname']"
      using entry_of_attempt_shape by blast
    ultimately show False using tr by simp
  qed
  with la show ?thesis by blast
qed


lemma list_length_assertion_never_fails:
  "read_paths fs root t sc \<noteq> Inl ListLengthAssertion"
proof
  assume a: "read_paths fs root t sc = Inl ListLengthAssertion"
  show False
  proof (cases "run_attempts fs (visited_attempts fs root t sc) ([], [])")
    case (Inl e)
    have "\<And>xs st. run_attempts fs xs st \<noteq> Inl ListLengthAssertion"
    proof -
      fix xs st
      show "run_attempts fs xs st \<noteq> Inl ListLengthAssertion"
      proof (induction xs arbitrary: st)
        case Nil
        then show ?case by simp
      next
        case (Cons pr xs)
        obtain c d where pr: "pr = (c, d)" by (cases pr)
        have sel: "\<And>lp ps acc. select_images fs lp ps acc \<noteq> Inl ListLengthAssertion"
        proof -
          fix lp ps acc
          show "select_images fs lp ps acc \<noteq> Inl ListLengthAssertion"
            by (induction ps arbitrary: acc)
               (auto simp: py_index_def split: list.splits sum.splits if_splits)
        qed
        have "read_attempt fs c d st \<noteq> Inl ListLengthAssertion"
          unfolding read_attempt_def Let_def
          using sel by (auto split: prod.splits list.splits sum.splits option.splits)
        with Cons.IH show ?case
          unfolding pr by (auto split: sum.splits)
      qed
    qed
    with a Inl show False unfolding read_paths_run by simp
  next
    case (Inr st)
    obtain ipl ll where st: "st = (ipl, ll)" by (cases st)
    have "list_all2 (\<lambda>p l. True) ipl ll"
      using Inr unfolding st
      by (rule run_attempts_entries) simp_all
    then have "length ipl = length ll" by (rule list_all2_lengthD)
    with a Inr st show False unfolding read_paths_run by simp
  qed
qed

subsection \<open>Truncation and failures of the path resolver\<close>























lemma read_paths_Inr_attempt:
  assumes "read_paths fs root t sc = Inr (ipl, ll)"
    and "(a, b) \<in> set (visited_attempts fs root t sc)"
  obtains xs ys where "read_attempt fs a b ([], []) = Inr (xs, ys)"
proof -
  have "attempt_succeeds fs (a, b)"
    using run_attempts_Inr_succeeds [OF read_paths_Inr_run [OF assms(1)]] assms(2) by blast
  then show ?thesis
    using that by (auto simp: attempt_succeeds_def split: sum.splits)
qed

lemma init_Inl: "read_paths fs root t sc = Inl e \<Longrightarrow> init fs root tr t sc = Inl e"
  by (simp add: init_def)

text \<open>
  Claim C4, as the code has it. Construction aborts whenever, for a writer-attempt that
  the resolver processes (a pair of the lock-step enumeration that is not traced and not
  behind the sanity-check cut), the number of image sub-subfolders differs from the
  number of label sub-subfolders, or the writer segment of a selected image path differs
  from that of the label path: \<^verbatim>\<open>read_paths\<close> raises, no dataset is built and no sample
  is produced.
\<close>

theorem structural_mismatch_aborts:
  assumes "(a, b) \<in> set (visited_attempts fs root t sc)"
    and "length (glob_all fs a) \<noteq> length (glob_all fs b)
         \<or> (\<exists>d \<in> set (glob_all fs a). \<exists>p lp.
               selected_image fs d = Some p \<and> label_path_of fs b = Some lp
               \<and> py_index p (- 3) \<noteq> py_index lp (- 3))"
  shows "(\<exists>e. read_paths fs root t sc = Inl e) \<and> (\<exists>e. init fs root tr t sc = Inl e)"
proof -
  have "\<exists>e. read_paths fs root t sc = Inl e"
  proof (cases "read_paths fs root t sc")
    case (Inl e)
    then show ?thesis by blast
  next
    case (Inr st)
    obtain ipl ll where st: "st = (ipl, ll)" by (cases st)
    from Inr st assms(1) obtain xs ys where ra: "read_attempt fs a b ([], []) = Inr (xs, ys)"
      using read_paths_Inr_attempt by blast
    note r = read_attempt_Inr [OF ra]
    from assms(2) r(1) obtain d p lp where d: "d \<in> set (glob_all fs a)"
      and p: "selected_image fs d = Some p" and lp: "label_path_of fs b = Some lp"
      and ne: "py_index p (- 3) \<noteq> py_index lp (- 3)"
      by blast
    from d obtain k where k: "k < length (glob_all fs a)" "glob_all fs a ! k = d"
      by (auto simp: in_set_conv_nth)
    with r(2) p have "xs ! k = p" "k < length xs"
      by (auto simp: list_all2_conv_all_nth)
    then have "p \<in> set xs" by auto
    with r(3) lp have "py_index p (- 3) = py_index lp (- 3)" by auto
    with ne show ?thesis by simp
  qed
  then show ?thesis using init_Inl by blast
qed


lemma select_images_reached:
  assumes "k < length pairs" and "glob_0150 fs (fst (pairs ! k)) = []"
    and "label_path_of fs b = Some lp"
    and "list_all (selection_passes fs b) (map fst (take k pairs))"
  shows "select_images fs lp pairs acc = Inl IndexError"
  using assms(1,2,4)
proof (induction pairs arbitrary: k acc)
  case Nil
  then show ?case by simp
next
  case (Cons pr pairs)
  obtain x l where pr: "pr = (x, l)" by (cases pr)
  show ?case
  proof (cases k)
    case 0
    with Cons.prems(2) show ?thesis unfolding pr by simp
  next
    case (Suc j)
    from Cons.prems(3) have px: "selection_passes fs b x"
      and rest: "list_all (selection_passes fs b) (map fst (take j pairs))"
      unfolding pr Suc by simp_all
    from px assms(3) obtain p ps seg where g: "glob_0150 fs x = p # ps"
      and s: "py_index p (- 3) = Inr seg" "py_index lp (- 3) = Inr seg"
      by (auto simp: selection_passes_def selected_image_def
          split: list.splits option.splits sum.splits)
    have "select_images fs lp pairs (acc @ [p]) = Inl IndexError"
      using Cons.prems(1,2) rest unfolding Suc by (intro Cons.IH [of j]) simp_all
    then show ?thesis unfolding pr using g s by simp
  qed
qed

lemma read_attempt_reached:
  assumes "reaches_in_attempt fs a b d" and "glob_0150 fs d = []"
  shows "read_attempt fs a b st = Inl IndexError"
proof -
  obtain ipl ll where st: "st = (ipl, ll)" by (cases st)
  from assms(1) obtain k where len: "length (glob_all fs a) = length (glob_all fs b)"
    and k: "k < length (glob_all fs a)" "glob_all fs a ! k = d"
    and pass: "list_all (selection_passes fs b) (take k (glob_all fs a))"
    by (auto simp: reaches_in_attempt_def list_ex_iff)
  from k(1) len obtain lab0 rest where b: "glob_all fs b = lab0 # rest"
    by (cases "glob_all fs b") auto
  let ?lp = "lab0 @ [''labels(sent1).json'']"
  let ?pairs = "zip (glob_all fs a) (glob_all fs b)"
  have lp: "label_path_of fs b = Some ?lp" by (simp add: label_path_of_def b)
  have kp: "k < length ?pairs" using k(1) len by simp
  have "fst (?pairs ! k) = d" using kp k(2) by simp
  with assms(2) have g: "glob_0150 fs (fst (?pairs ! k)) = []" by simp
  have "map fst (take k ?pairs) = take k (glob_all fs a)"
    using len by (simp add: take_map [symmetric])
  with pass have p: "list_all (selection_passes fs b) (map fst (take k ?pairs))" by simp
  have "select_images fs ?lp ?pairs ipl = Inl IndexError"
    by (rule select_images_reached [OF kp g lp p])
  then show ?thesis
    unfolding st read_attempt_def Let_def using len by (simp add: b)
qed

lemma run_attempts_reached:
  assumes "reaches fs xs d" and "glob_0150 fs d = []"
  shows "run_attempts fs xs st = Inl IndexError"
  using assms(1)
proof (induction xs arbitrary: st)
  case Nil
  then show ?case by simp
next
  case (Cons pr xs)
  obtain a b where pr: "pr = (a, b)" by (cases pr)
  from Cons.prems consider "reaches_in_attempt fs a b d"
    | "attempt_succeeds fs (a, b)" "reaches fs xs d"
    unfolding pr by auto
  then show ?case
  proof cases
    case 1
    then have "read_attempt fs a b st = Inl IndexError"
      using assms(2) by (rule read_attempt_reached)
    then show ?thesis unfolding pr by simp
  next
    case 2
    obtain ipl ll where st: "st = (ipl, ll)" by (cases st)
    from 2(1) obtain us vs where "read_attempt fs a b ([], []) = Inr (us, vs)"
      by (auto simp: attempt_succeeds_def split: sum.splits)
    then have "read_attempt fs a b st = Inr (ipl @ us, ll @ vs)"
      unfolding st by (subst read_attempt_acc) simp
    moreover have "run_attempts fs xs (ipl @ us, ll @ vs) = Inl IndexError"
      by (rule Cons.IH [OF 2(2)])
    ultimately show ?thesis unfolding pr by simp
  qed
qed

text \<open>
  Claim C10, as the code has it. If an image sub-subfolder of a processed (enumerated,
  not traced) writer-attempt has no file matching \<^verbatim>\<open>*_0150_x*\<close>, construction fails: the
  folder is neither skipped nor given a substitute file. The error is the \<open>IndexError\<close>
  of the selection step of line 83 whenever construction gets as far as that folder, that
  is, whenever every writer-attempt processed before is processed without error, the
  count assertion of the folder's writer-attempt holds and every sub-subfolder before it
  passes the selection and the writer-segment assertion.
\<close>

theorem missing_canonical_file_aborts:
  assumes "d \<in> set (visited_subfolders fs root t sc)" and "glob_0150 fs d = []"
  shows "(\<exists>e. read_paths fs root t sc = Inl e) \<and> (\<exists>e. init fs root tr t sc = Inl e)
       \<and> (reaches fs (visited_attempts fs root t sc) d
            \<longrightarrow> read_paths fs root t sc = Inl IndexError
                \<and> init fs root tr t sc = Inl IndexError)"
proof -
  from assms(1) obtain a b where v: "(a, b) \<in> set (visited_attempts fs root t sc)"
    and d: "d \<in> set (glob_all fs a)"
    by (auto simp: visited_subfolders_def)
  have fails: "\<exists>e. read_paths fs root t sc = Inl e"
  proof (cases "read_paths fs root t sc")
    case (Inl e)
    then show ?thesis by blast
  next
    case (Inr st)
    obtain ipl ll where st: "st = (ipl, ll)" by (cases st)
    from Inr st v obtain xs ys where ra: "read_attempt fs a b ([], []) = Inr (xs, ys)"
      using read_paths_Inr_attempt by blast
    from d obtain k where k: "k < length (glob_all fs a)" "glob_all fs a ! k = d"
      by (auto simp: in_set_conv_nth)
    with read_attempt_Inr(2) [OF ra] have "selected_image fs d = Some (xs ! k)"
      by (auto simp: list_all2_conv_all_nth)
    with assms(2) show ?thesis by (simp add: selected_image_def)
  qed
  then have fails': "\<exists>e. init fs root tr t sc = Inl e"
    using init_Inl by blast
  have "read_paths fs root t sc = Inl IndexError \<and> init fs root tr t sc = Inl IndexError"
    if r: "reaches fs (visited_attempts fs root t sc) d"
  proof -
    have "run_attempts fs (visited_attempts fs root t sc) ([], []) = Inl IndexError"
      using r assms(2) by (rule run_attempts_reached)
    then have "read_paths fs root t sc = Inl IndexError"
      unfolding read_paths_run by simp
    then show ?thesis using init_Inl by blast
  qed
  with fails fails' show ?thesis by blast
qed

subsection \<open>The example corpora, run\<close>

lemma traced_run:
  "read_paths (layout_fs traced_listing) [''data''] True None
     = Inr ([image_root [''data''] True @ [''s1'', ''w1'', ''v1'', ''a_0150_x1.png'']], [''id_w1''])"
  by code_simp

text \<open>
  Claim C4 as the specification states it, for any writer-attempt, fails on a traced one:
  the traced folder of this corpus has two image sub-subfolders and one label
  sub-subfolder, and the construction succeeds with the sample of the other writer-attempt.
\<close>

theorem structural_mismatch_traced_counterexample:
  "''w2_'' @ traced_marker
     \<in> set (listdir (layout_fs traced_listing) (image_root [''data''] True @ [''s1'']))
   \<and> length (glob_all (layout_fs traced_listing)
              (image_root [''data''] True @ [''s1'', ''w2_'' @ traced_marker])) = 2
   \<and> length (glob_all (layout_fs traced_listing)
              (label_root [''data''] True @ [''s1'', ''w2_'' @ traced_marker])) = 1
   \<and> read_paths (layout_fs traced_listing) [''data''] True None
       = Inr ([image_root [''data''] True @ [''s1'', ''w1'', ''v1'', ''a_0150_x1.png'']],
              [''id_w1''])"
  by code_simp




theorem structural_mismatch_aborts_witness:
  "(image_root [''data''] True @ [''s1'', ''w2''], label_root [''data''] True @ [''s1'', ''w2''])
     \<in> set (visited_attempts (layout_fs mismatch_listing) [''data''] True None)
   \<and> length (glob_all (layout_fs mismatch_listing) (image_root [''data''] True @ [''s1'', ''w2'']))
       \<noteq> length (glob_all (layout_fs mismatch_listing)
                   (label_root [''data''] True @ [''s1'', ''w2'']))
   \<and> (\<exists>e. read_paths (layout_fs mismatch_listing) [''data''] True None = Inl e)
   \<and> (\<exists>e. init (layout_fs mismatch_listing) [''data''] None True None = Inl e)"
proof -
  have h1: "(image_root [''data''] True @ [''s1'', ''w2''],
             label_root [''data''] True @ [''s1'', ''w2''])
     \<in> set (visited_attempts (layout_fs mismatch_listing) [''data''] True None)"
    by code_simp
  have h2: "length (glob_all (layout_fs mismatch_listing)
                      (image_root [''data''] True @ [''s1'', ''w2'']))
       \<noteq> length (glob_all (layout_fs mismatch_listing)
                   (label_root [''data''] True @ [''s1'', ''w2'']))"
    by code_simp
  from structural_mismatch_aborts [OF h1 disjI1, OF h2, of None] h1 h2
  show ?thesis by blast
qed


theorem traced_attempts_excluded_witness:
  "read_paths (layout_fs traced_listing) [''data''] True None
       = Inr ([image_root [''data''] True @ [''s1'', ''w1'', ''v1'', ''a_0150_x1.png'']],
              [''id_w1''])
   \<and> is_traced (image_root [''data''] True @ [''s1'', ''w2_'' @ traced_marker])
   \<and> (image_root [''data''] True @ [''s1'', ''w2_'' @ traced_marker]) @ [''v1'', ''a_0150_x1.png'']
       \<notin> set [image_root [''data''] True @ [''s1'', ''w1'', ''v1'', ''a_0150_x1.png'']]"
proof -
  have tr: "is_traced (image_root [''data''] True @ [''s1'', ''w2_'' @ traced_marker])"
    by code_simp
  from traced_attempts_excluded [OF traced_run] tr
  have "(image_root [''data''] True @ [''s1'', ''w2_'' @ traced_marker]) @ [''v1'', ''a_0150_x1.png'']
       \<notin> set [image_root [''data''] True @ [''s1'', ''w1'', ''v1'', ''a_0150_x1.png'']]"
    by blast
  with traced_run tr show ?thesis by blast
qed

text \<open>
  Claim C10 as the specification states it, with the out-of-range error as the error of
  the construction, fails when something else fails first: in this corpus the
  writer-attempt \<open>w1\<close>, processed first, has two image sub-subfolders and one label
  sub-subfolder, and the sub-subfolder of \<open>w2\<close> lacks the canonical file. The construction
  fails with the count assertion of line 74 and never gets to the selection step.
\<close>

theorem missing_canonical_file_counterexample:
  "image_root [''data''] True @ [''s1'', ''w2'', ''v1'']
     \<in> set (visited_subfolders (layout_fs mismatch_first_listing) [''data''] True None)
   \<and> glob_0150 (layout_fs mismatch_first_listing)
        (image_root [''data''] True @ [''s1'', ''w2'', ''v1'']) = []
   \<and> read_paths (layout_fs mismatch_first_listing) [''data''] True None
        = Inl SubfolderCountAssertion"
  by code_simp


theorem missing_canonical_file_aborts_witness:
  "image_root [''data''] True @ [''s1'', ''w1'', ''v2'']
     \<in> set (visited_subfolders (layout_fs no_canonical_listing) [''data''] True None)
   \<and> glob_0150 (layout_fs no_canonical_listing)
        (image_root [''data''] True @ [''s1'', ''w1'', ''v2'']) = []
   \<and> reaches (layout_fs no_canonical_listing)
        (visited_attempts (layout_fs no_canonical_listing) [''data''] True None)
        (image_root [''data''] True @ [''s1'', ''w1'', ''v2''])
   \<and> read_paths (layout_fs no_canonical_listing) [''data''] True None = Inl IndexError
   \<and> init (layout_fs no_canonical_listing) [''data''] None True None = Inl IndexError"
proof -
  have h1: "image_root [''data''] True @ [''s1'', ''w1'', ''v2'']
     \<in> set (visited_subfolders (layout_fs no_canonical_listing) [''data''] True None)"
    by code_simp
  have h2: "glob_0150 (layout_fs no_canonical_listing)
        (image_root [''data''] True @ [''s1'', ''w1'', ''v2'']) = []"
    by code_simp
  have h3: "reaches (layout_fs no_canonical_listing)
        (visited_attempts (layout_fs no_canonical_listing) [''data''] True None)
        (image_root [''data''] True @ [''s1'', ''w1'', ''v2''])"
    by code_simp
  from missing_canonical_file_aborts [OF h1 h2, of None] h3
  have "read_paths (layout_fs no_canonical_listing) [''data''] True None = Inl IndexError
      \<and> init (layout_fs no_canonical_listing) [''data''] None True None = Inl IndexError"
    by blast
  with h1 h2 h3 show ?thesis by blast
qed

end
